theory Spec2Isabelle
  imports Main
begin

section \<open>JavaScript plain objects used as dictionaries\<close>

text \<open>
  \<^verbatim>\<open>rooms\<close>, \<^verbatim>\<open>room.participants\<close> and \<^verbatim>\<open>room.waitingParticipants\<close> are plain
  objects with string keys. An object is modelled by the list of its own enumerable
  properties in insertion order, which is the order of \<^verbatim>\<open>for ... in\<close>,
  \<^verbatim>\<open>Object.keys\<close> and \<^verbatim>\<open>Object.entries\<close> for keys that are not array indices.
  Assigning to an existing key keeps its position, assigning to a new key appends it,
  \<^verbatim>\<open>delete\<close> removes it.
\<close>

type_synonym 'v obj = "(string \<times> 'v) list"

definition obj_keys :: "'v obj \<Rightarrow> string list" where
  "obj_keys ob = map fst ob"

definition obj_get :: "'v obj \<Rightarrow> string \<Rightarrow> 'v option" where
  "obj_get ob k = map_of ob k"

fun obj_set :: "string \<Rightarrow> 'v \<Rightarrow> 'v obj \<Rightarrow> 'v obj" where
  "obj_set k v [] = [(k, v)]"
| "obj_set k v (e # ob) = (if fst e = k then (k, v) # ob else e # obj_set k v ob)"

definition obj_delete :: "string \<Rightarrow> 'v obj \<Rightarrow> 'v obj" where
  "obj_delete k ob = filter (\<lambda>e. fst e \<noteq> k) ob"

text \<open>
  A property read \<^verbatim>\<open>rooms[roomId]\<close> with a key chosen by the client also sees the
  properties that every plain object inherits from \<^verbatim>\<open>Object.prototype\<close>; their
  values are built-in functions (or the prototype itself) and are truthy. The room id of
  a request is any string the client cares to send, so the registry is read with
  \<open>prop_get\<close>. The participant objects are read and written under socket ids: the id
  of the calling socket, or the \<^verbatim>\<open>participantId\<close> of a host command, which names a
  connection that is or was waiting or joined. Socket ids are issued by socket.io, are
  not empty and are never names of \<^verbatim>\<open>Object.prototype\<close>, so those reads are reads
  of own properties (\<open>obj_get\<close>), and \<open>hostId\<close> is falsy only when it is
  \<^verbatim>\<open>null\<close>.
\<close>

definition object_prototype_names :: "string list" where
  "object_prototype_names =
     [''constructor'', ''__proto__'', ''hasOwnProperty'', ''isPrototypeOf'',
      ''propertyIsEnumerable'', ''toLocaleString'', ''toString'', ''valueOf'',
      ''__defineGetter__'', ''__defineSetter__'', ''__lookupGetter__'',
      ''__lookupSetter__'']"

datatype 'v lookup = Undefined | Inherited | Own 'v

definition prop_get :: "'v obj \<Rightarrow> string \<Rightarrow> 'v lookup" where
  "prop_get ob k =
     (case obj_get ob k of
        Some v \<Rightarrow> Own v
      | None \<Rightarrow> if k \<in> set object_prototype_names then Inherited else Undefined)"

section \<open>Data model\<close>

text \<open>
  The record a joiner gets in the waiting room, and the participant record, which the
  approve handler builds by spreading the waiting record and adding three fields.
  Times (\<^verbatim>\<open>new Date()\<close>) are milliseconds as natural numbers.
\<close>

record entrant =
  id' :: string
  username :: string
  peerId :: string
  socketId :: string
  joinedAt :: nat

record participant = entrant +
  audioEnabled :: bool
  videoEnabled :: bool
  isHost :: bool

record settings =
  requireApproval :: bool
  allowedToJoin :: "string list"

record room =
  room_id :: string
  participants :: "participant obj"
  waitingParticipants :: "entrant obj"
  hostId :: "string option"
  hostPeerId :: "string option"
  createdAt :: nat
  room_settings :: settings

text \<open>
  The process state: the registry \<^verbatim>\<open>rooms\<close>, the connected sockets
  (\<^verbatim>\<open>io.sockets.sockets\<close>), the socket.io room memberships as pairs of a room name
  and a socket id, and the pending \<^verbatim>\<open>setTimeout\<close> callbacks of the disconnect
  handler, each with its due time and the room id it closes over.
\<close>

record state =
  rooms :: "room obj"
  sockets :: "string list"
  joined :: "(string \<times> string) list"
  timers :: "(nat \<times> string) list"

definition init_state :: state where
  "init_state = \<lparr>rooms = [], sockets = [], joined = [], timers = []\<rparr>"

section \<open>Messages and effects\<close>

datatype msg =
    Room_error string
  | Host_status bool
  | Room_participants "participant obj"
  | Waiting_for_approval string
  | Join_request string string string
  | Error_msg string
  | Approval_granted
  | User_joined string string string
  | Approval_rejected string
  | User_toggle_audio string string bool
  | User_toggle_video string string bool
  | You_were_removed
  | User_removed string string
  | Waiting_participants "entrant list"
  | Host_left
  | User_left string string

text \<open>
  An emission goes to an audience, the list of socket ids it is delivered to;
  \<open>Close\<close> is the closing of a connection by \<^verbatim>\<open>socket.disconnect(true)\<close>; the
  emissions of the disconnect handler that it runs follow.
\<close>

datatype effect = Emit "string list" msg | Close string

datatype error = TypeError

fun delivered :: "string \<Rightarrow> effect \<Rightarrow> msg list" where
  "delivered r (Emit audience m) = (if r \<in> set audience then [m] else [])"
| "delivered r (Close s) = []"

definition received :: "string \<Rightarrow> effect list \<Rightarrow> msg list" where
  "received r out = concat (map (delivered r) out)"

section \<open>The socket.io operations the handlers use\<close>

text \<open>
  A connecting socket joins the room named by its own id. \<^verbatim>\<open>socket.join\<close> adds the
  socket to a room (a set). \<^verbatim>\<open>io.to(r).emit\<close> reaches every socket in room \<open>r\<close>;
  \<^verbatim>\<open>socket.to(r).emit\<close> reaches every socket in room \<open>r\<close> except \<^verbatim>\<open>socket\<close>
  itself. When the disconnect event is dispatched the socket has already left all its
  rooms and is no longer in \<^verbatim>\<open>io.sockets.sockets\<close>.
\<close>

definition members :: "state \<Rightarrow> string \<Rightarrow> string list" where
  "members st r = map snd (filter (\<lambda>e. fst e = r) (joined st))"

definition io_to :: "state \<Rightarrow> string \<Rightarrow> string list" where
  "io_to st r = members st r"

definition socket_to :: "state \<Rightarrow> string \<Rightarrow> string \<Rightarrow> string list" where
  "socket_to st sid r = filter (\<lambda>x. x \<noteq> sid) (members st r)"

definition socket_join :: "string \<Rightarrow> string \<Rightarrow> state \<Rightarrow> state" where
  "socket_join sid r st =
     (if (r, sid) \<in> set (joined st) then st
      else st\<lparr>joined := joined st @ [(r, sid)]\<rparr>)"

definition socket_connected :: "string \<Rightarrow> state \<Rightarrow> state" where
  "socket_connected sid st = socket_join sid sid (st\<lparr>sockets := sockets st @ [sid]\<rparr>)"

definition socket_closed :: "string \<Rightarrow> state \<Rightarrow> state" where
  "socket_closed sid st =
     st\<lparr>sockets := filter (\<lambda>x. x \<noteq> sid) (sockets st),
        joined := filter (\<lambda>e. snd e \<noteq> sid) (joined st)\<rparr>"

section \<open>The HTTP endpoint that creates a room\<close>

text \<open>\<^verbatim>\<open>POST /api/room\<close>; \<open>roomId\<close> is the value \<^verbatim>\<open>uuidv4()\<close> returned.\<close>

definition new_room :: "nat \<Rightarrow> string \<Rightarrow> room" where
  "new_room now roomId =
     \<lparr>room_id = roomId, participants = [], waitingParticipants = [],
      hostId = None, hostPeerId = None, createdAt = now,
      room_settings = \<lparr>requireApproval = True, allowedToJoin = []\<rparr>\<rparr>"

definition create_room :: "nat \<Rightarrow> string \<Rightarrow> state \<Rightarrow> state" where
  "create_room now roomId st = st\<lparr>rooms := obj_set roomId (new_room now roomId) (rooms st)\<rparr>"

section \<open>The socket event handlers\<close>

text \<open>
  Each handler takes the id \<open>sid\<close> of the socket it is registered on
  (\<^verbatim>\<open>socket.id\<close>), the fields of the payload and the state, and returns the new state
  with the effects in the order the code performs them. The handlers of
  \<^verbatim>\<open>join-room\<close> and \<^verbatim>\<open>toggle-audio/video\<close> dereference
  \<^verbatim>\<open>room.participants\<close> of whatever \<^verbatim>\<open>rooms[roomId]\<close> returned, which throws a
  TypeError when that is an inherited built-in.
\<close>

definition host_record :: "nat \<Rightarrow> string \<Rightarrow> string \<Rightarrow> string \<Rightarrow> participant" where
  "host_record now sid uname pid =
     \<lparr>id' = sid, username = uname, peerId = pid, socketId = sid, joinedAt = now,
      audioEnabled = True, videoEnabled = True, isHost = True\<rparr>"

definition waiting_record :: "nat \<Rightarrow> string \<Rightarrow> string \<Rightarrow> string \<Rightarrow> entrant" where
  "waiting_record now sid uname pid =
     \<lparr>id' = sid, username = uname, peerId = pid, socketId = sid, joinedAt = now\<rparr>"

definition join_room ::
  "nat \<Rightarrow> string \<Rightarrow> string \<Rightarrow> string \<Rightarrow> string \<Rightarrow> bool \<Rightarrow> state \<Rightarrow> error + state \<times> effect list"
where
  "join_room now sid roomId uname pid isHostFlag st =
     (case prop_get (rooms st) roomId of
        Undefined \<Rightarrow> Inr (st, [Emit [sid] (Room_error ''Room does not exist'')])
      | Inherited \<Rightarrow> Inl TypeError
      | Own room \<Rightarrow>
          let participantId = sid in
          if isHostFlag \<or> hostId room = None then
            let room1 = room\<lparr>hostId := Some participantId, hostPeerId := Some pid\<rparr>;
                st1 = socket_join sid roomId st;
                room2 = room1\<lparr>participants :=
                          obj_set participantId (host_record now sid uname pid)
                            (participants room1)\<rparr>
            in Inr (st1\<lparr>rooms := obj_set roomId room2 (rooms st1)\<rparr>,
                    [Emit [sid] (Host_status True), Emit [sid] (Room_participants [])])
          else
            let room1 = room\<lparr>waitingParticipants :=
                          obj_set participantId (waiting_record now sid uname pid)
                            (waitingParticipants room)\<rparr>
            in Inr (st\<lparr>rooms := obj_set roomId room1 (rooms st)\<rparr>,
                    Emit [sid] (Waiting_for_approval
                                  ''Waiting for host approval to join the meeting'')
                    # (case hostId room1 of
                         Some h \<Rightarrow> [Emit (io_to st h) (Join_request participantId uname pid)]
                       | None \<Rightarrow> [])))"

subsection \<open>Disconnect\<close>

text \<open>
  The body of the \<^verbatim>\<open>for (const roomId in rooms)\<close> loop up to the clean-up test:
  what happens to one room, and the emissions made for it. \<open>st\<close> is the state after
  the socket has left its socket.io rooms. The handler runs when a connection is lost,
  and inside \<^verbatim>\<open>socket.disconnect(true)\<close>, which closes the socket and dispatches
  its disconnect event before it returns.
\<close>

definition disconnect_room :: "state \<Rightarrow> string \<Rightarrow> string \<Rightarrow> room \<Rightarrow> room \<times> effect list" where
  "disconnect_room st sid roomId room =
     (let (room2, out) =
            (case obj_get (participants room) sid of
               None \<Rightarrow> (room, [])
             | Some p \<Rightarrow>
                 let (room1, out1) =
                       (if hostId room = Some sid then
                          (room\<lparr>hostId := None, hostPeerId := None\<rparr>,
                           [Emit (io_to st roomId) Host_left])
                        else
                          (room, [Emit (socket_to st sid roomId) (User_left sid (peerId p))]))
                 in (room1\<lparr>participants := obj_delete sid (participants room1)\<rparr>, out1));
          room3 =
            (case obj_get (waitingParticipants room2) sid of
               None \<Rightarrow> room2
             | Some w \<Rightarrow> room2\<lparr>waitingParticipants :=
                                 obj_delete sid (waitingParticipants room2)\<rparr>)
      in (room3, out))"

definition is_empty_room :: "room \<Rightarrow> bool" where
  "is_empty_room room \<longleftrightarrow>
     length (obj_keys (participants room)) = 0 \<and>
     length (obj_keys (waitingParticipants room)) = 0"

definition grace_period :: nat where
  "grace_period = 60000"

definition disconnect :: "nat \<Rightarrow> string \<Rightarrow> state \<Rightarrow> state \<times> effect list" where
  "disconnect now sid st0 =
     (let st = socket_closed sid st0;
          results = map (\<lambda>(roomId, room). (roomId, disconnect_room st sid roomId room))
                      (rooms st)
      in (st\<lparr>rooms := map (\<lambda>(roomId, res). (roomId, fst res)) results,
             timers := timers st
                       @ map (\<lambda>(roomId, res). (now + grace_period, roomId))
                           (filter (\<lambda>(roomId, res). is_empty_room (fst res)) results)\<rparr>,
          concat (map (\<lambda>(roomId, res). snd res) results)))"

subsection \<open>Host commands\<close>

text \<open>
  The three host commands share the guard
  \<^verbatim>\<open>!room || room.hostId !== socket.id\<close>; on an inherited built-in
  \<^verbatim>\<open>room.hostId\<close> is undefined, which differs from every socket id.
\<close>

definition is_host_of :: "state \<Rightarrow> string \<Rightarrow> string \<Rightarrow> room option" where
  "is_host_of st sid roomId =
     (case prop_get (rooms st) roomId of
        Own room \<Rightarrow> if hostId room = Some sid then Some room else None
      | Inherited \<Rightarrow> None
      | Undefined \<Rightarrow> None)"

definition approved_record :: "entrant \<Rightarrow> participant" where
  "approved_record w =
     entrant.extend w (participant.fields True True False)"

definition approve_participant ::
  "string \<Rightarrow> string \<Rightarrow> string \<Rightarrow> state \<Rightarrow> state \<times> effect list"
where
  "approve_participant sid roomId participantId st =
     (case is_host_of st sid roomId of
        None \<Rightarrow> (st, [Emit [sid] (Error_msg ''Unauthorized'')])
      | Some room \<Rightarrow>
          (case obj_get (waitingParticipants room) participantId of
             None \<Rightarrow> (st, [])
           | Some waitingParticipant \<Rightarrow>
               let room1 = room\<lparr>participants :=
                             obj_set participantId (approved_record waitingParticipant)
                               (participants room)\<rparr>;
                   room2 = room1\<lparr>waitingParticipants :=
                             obj_delete participantId (waitingParticipants room1)\<rparr>;
                   st1 = st\<lparr>rooms := obj_set roomId room2 (rooms st)\<rparr>
               in if participantId \<in> set (sockets st1) then
                    let st2 = socket_join participantId roomId st1;
                        existingParticipants =
                          filter (\<lambda>e. fst e \<noteq> participantId) (participants room2)
                    in (st2,
                        [Emit [participantId] Approval_granted,
                         Emit [participantId] (Room_participants existingParticipants),
                         Emit (socket_to st2 sid roomId)
                           (User_joined participantId (username waitingParticipant)
                              (peerId waitingParticipant))])
                  else (st1, [])))"

definition reject_participant ::
  "nat \<Rightarrow> string \<Rightarrow> string \<Rightarrow> string \<Rightarrow> state \<Rightarrow> state \<times> effect list"
where
  "reject_participant now sid roomId participantId st =
     (case is_host_of st sid roomId of
        None \<Rightarrow> (st, [Emit [sid] (Error_msg ''Unauthorized'')])
      | Some room \<Rightarrow>
          (case obj_get (waitingParticipants room) participantId of
             None \<Rightarrow> (st, [])
           | Some waitingParticipant \<Rightarrow>
               let room1 = room\<lparr>waitingParticipants :=
                             obj_delete participantId (waitingParticipants room)\<rparr>;
                   st1 = st\<lparr>rooms := obj_set roomId room1 (rooms st)\<rparr>
               in if participantId \<in> set (sockets st1) then
                    let closed = disconnect now participantId st1
                    in (fst closed,
                        [Emit [participantId]
                           (Approval_rejected ''Host denied your request to join the meeting''),
                         Close participantId]
                        @ snd closed)
                  else (st1, [])))"

definition toggle_audio ::
  "string \<Rightarrow> string \<Rightarrow> string \<Rightarrow> bool \<Rightarrow> state \<Rightarrow> error + state \<times> effect list"
where
  "toggle_audio sid roomId pid enabled st =
     (case prop_get (rooms st) roomId of
        Undefined \<Rightarrow> Inr (st, [])
      | Inherited \<Rightarrow> Inl TypeError
      | Own room \<Rightarrow>
          (case obj_get (participants room) sid of
             None \<Rightarrow> Inr (st, [])
           | Some p \<Rightarrow>
               let room1 = room\<lparr>participants :=
                             obj_set sid (p\<lparr>audioEnabled := enabled\<rparr>) (participants room)\<rparr>
               in Inr (st\<lparr>rooms := obj_set roomId room1 (rooms st)\<rparr>,
                       [Emit (socket_to st sid roomId)
                          (User_toggle_audio sid pid enabled)])))"

definition toggle_video ::
  "string \<Rightarrow> string \<Rightarrow> string \<Rightarrow> bool \<Rightarrow> state \<Rightarrow> error + state \<times> effect list"
where
  "toggle_video sid roomId pid enabled st =
     (case prop_get (rooms st) roomId of
        Undefined \<Rightarrow> Inr (st, [])
      | Inherited \<Rightarrow> Inl TypeError
      | Own room \<Rightarrow>
          (case obj_get (participants room) sid of
             None \<Rightarrow> Inr (st, [])
           | Some p \<Rightarrow>
               let room1 = room\<lparr>participants :=
                             obj_set sid (p\<lparr>videoEnabled := enabled\<rparr>) (participants room)\<rparr>
               in Inr (st\<lparr>rooms := obj_set roomId room1 (rooms st)\<rparr>,
                       [Emit (socket_to st sid roomId)
                          (User_toggle_video sid pid enabled)])))"

definition remove_participant ::
  "nat \<Rightarrow> string \<Rightarrow> string \<Rightarrow> string \<Rightarrow> string \<Rightarrow> state \<Rightarrow> state \<times> effect list"
where
  "remove_participant now sid roomId participantId pid st =
     (case is_host_of st sid roomId of
        None \<Rightarrow> (st, [Emit [sid] (Error_msg ''Only host can remove participants'')])
      | Some room \<Rightarrow>
          (case obj_get (participants room) participantId of
             None \<Rightarrow> (st, [])
           | Some p \<Rightarrow>
               let out = [Emit (io_to st participantId) You_were_removed,
                          Emit (socket_to st sid roomId) (User_removed participantId pid)];
                   room1 = room\<lparr>participants :=
                             obj_delete participantId (participants room)\<rparr>;
                   st1 = st\<lparr>rooms := obj_set roomId room1 (rooms st)\<rparr>
               in if participantId \<in> set (sockets st1) then
                    let closed = disconnect now participantId st1
                    in (fst closed, out @ Close participantId # snd closed)
                  else (st1, out)))"

definition get_waiting_participants ::
  "string \<Rightarrow> string \<Rightarrow> state \<Rightarrow> state \<times> effect list"
where
  "get_waiting_participants sid roomId st =
     (case is_host_of st sid roomId of
        None \<Rightarrow> (st, [])
      | Some room \<Rightarrow>
          (st, [Emit [sid] (Waiting_participants (map snd (waitingParticipants room)))]))"

subsection \<open>The clean-up timer\<close>

text \<open>
  The callback passed to \<^verbatim>\<open>setTimeout\<close>. Its \<open>roomId\<close> is a key the loop
  enumerated, that is, an id issued by \<^verbatim>\<open>uuidv4()\<close>.
\<close>

definition cleanup_check :: "string \<Rightarrow> state \<Rightarrow> state" where
  "cleanup_check roomId st =
     (case obj_get (rooms st) roomId of
        None \<Rightarrow> st
      | Some room \<Rightarrow>
          if is_empty_room room then st\<lparr>rooms := obj_delete roomId (rooms st)\<rparr> else st)"

section \<open>The server as a transition system\<close>

text \<open>
  One input is one event of the single-threaded event loop: a request to the HTTP
  endpoint, a connection, a socket event with its payload, a disconnect, or a clean-up
  timer coming due. Each runs to completion at a time \<open>now\<close>.
\<close>

datatype input =
    Create_room string
  | Connect string
  | Join_room string string string string bool
  | Approve_participant string string string
  | Reject_participant string string string
  | Toggle_audio string string string bool
  | Toggle_video string string string bool
  | Remove_participant string string string string
  | Get_waiting_participants string string
  | Disconnect string
  | Timeout nat string

fun handle :: "nat \<Rightarrow> input \<Rightarrow> state \<Rightarrow> error + state \<times> effect list" where
  "handle now (Create_room roomId) st = Inr (create_room now roomId st, [])"
| "handle now (Connect sid) st = Inr (socket_connected sid st, [])"
| "handle now (Join_room sid roomId uname pid isHostFlag) st =
     join_room now sid roomId uname pid isHostFlag st"
| "handle now (Approve_participant sid roomId participantId) st =
     Inr (approve_participant sid roomId participantId st)"
| "handle now (Reject_participant sid roomId participantId) st =
     Inr (reject_participant now sid roomId participantId st)"
| "handle now (Toggle_audio sid roomId pid enabled) st = toggle_audio sid roomId pid enabled st"
| "handle now (Toggle_video sid roomId pid enabled) st = toggle_video sid roomId pid enabled st"
| "handle now (Remove_participant sid roomId participantId pid) st =
     Inr (remove_participant now sid roomId participantId pid st)"
| "handle now (Get_waiting_participants sid roomId) st =
     Inr (get_waiting_participants sid roomId st)"
| "handle now (Disconnect sid) st = Inr (disconnect now sid st)"
| "handle now (Timeout due roomId) st =
     Inr (cleanup_check roomId (st\<lparr>timers := remove1 (due, roomId) (timers st)\<rparr>), [])"

text \<open>
  What the environment can do: \<^verbatim>\<open>uuidv4()\<close> returns an id that is not in use, a
  new socket gets a socket id that no connected socket has, socket events and the
  disconnect come from connected sockets, the \<^verbatim>\<open>participantId\<close> of a host command
  has the form of a socket id, and a timer fires when it is pending and due.
\<close>

definition socket_id :: "string \<Rightarrow> bool" where
  "socket_id s \<longleftrightarrow> s \<noteq> [] \<and> s \<notin> set object_prototype_names"

fun possible :: "nat \<Rightarrow> input \<Rightarrow> state \<Rightarrow> bool" where
  "possible now (Create_room roomId) st \<longleftrightarrow>
     roomId \<notin> set (obj_keys (rooms st)) \<and> roomId \<notin> set object_prototype_names \<and>
     roomId \<notin> snd ` set (timers st)"
| "possible now (Connect sid) st \<longleftrightarrow> sid \<notin> set (sockets st) \<and> socket_id sid"
| "possible now (Join_room sid roomId uname pid isHostFlag) st \<longleftrightarrow> sid \<in> set (sockets st)"
| "possible now (Approve_participant sid roomId participantId) st \<longleftrightarrow>
     sid \<in> set (sockets st) \<and> socket_id participantId"
| "possible now (Reject_participant sid roomId participantId) st \<longleftrightarrow>
     sid \<in> set (sockets st) \<and> socket_id participantId"
| "possible now (Toggle_audio sid roomId pid enabled) st \<longleftrightarrow> sid \<in> set (sockets st)"
| "possible now (Toggle_video sid roomId pid enabled) st \<longleftrightarrow> sid \<in> set (sockets st)"
| "possible now (Remove_participant sid roomId participantId pid) st \<longleftrightarrow>
     sid \<in> set (sockets st) \<and> socket_id participantId"
| "possible now (Get_waiting_participants sid roomId) st \<longleftrightarrow> sid \<in> set (sockets st)"
| "possible now (Disconnect sid) st \<longleftrightarrow> sid \<in> set (sockets st)"
| "possible now (Timeout due roomId) st \<longleftrightarrow> (due, roomId) \<in> set (timers st) \<and> due \<le> now"

text \<open>
  The states reachable from the empty server by inputs that the environment can
  produce and that a policy \<open>P\<close> on the clients admits; \<open>reachable\<close> admits every
  input.
\<close>

inductive reachable_under :: "(input \<Rightarrow> state \<Rightarrow> bool) \<Rightarrow> state \<Rightarrow> bool"
  for P :: "input \<Rightarrow> state \<Rightarrow> bool"
where
  start: "reachable_under P init_state"
| step: "reachable_under P st \<Longrightarrow> possible now e st \<Longrightarrow> P e st \<Longrightarrow>
         handle now e st = Inr (st', out) \<Longrightarrow> reachable_under P st'"

definition any_input :: "input \<Rightarrow> state \<Rightarrow> bool" where
  "any_input e st \<longleftrightarrow> True"

definition reachable :: "state \<Rightarrow> bool" where
  "reachable st \<longleftrightarrow> reachable_under any_input st"

text \<open>
  Running a list of timed inputs under a policy; \<open>None\<close> when an input is not possible
  in the state it meets, is not admitted by the policy, or makes a handler throw.
\<close>

fun run_under :: "(input \<Rightarrow> state \<Rightarrow> bool) \<Rightarrow> (nat \<times> input) list \<Rightarrow> state \<Rightarrow> state option" where
  "run_under P [] st = Some st"
| "run_under P ((now, e) # es) st =
     (if possible now e st \<and> P e st then
        (case handle now e st of Inl err \<Rightarrow> None | Inr res \<Rightarrow> run_under P es (fst res))
      else None)"

definition run :: "(nat \<times> input) list \<Rightarrow> state \<Rightarrow> state option" where
  "run es st = run_under any_input es st"

section \<open>Properties of rooms and states\<close>

text \<open>
  Keys of an object are unique, and every record is stored under its own id.
\<close>

definition wf_room :: "room \<Rightarrow> bool" where
  "wf_room room \<longleftrightarrow>
     distinct (obj_keys (participants room)) \<and>
     distinct (obj_keys (waitingParticipants room)) \<and>
     (\<forall>e \<in> set (participants room). id' (snd e) = fst e) \<and>
     (\<forall>e \<in> set (waitingParticipants room). id' (snd e) = fst e)"

definition wf_state :: "state \<Rightarrow> bool" where
  "wf_state st \<longleftrightarrow>
     distinct (obj_keys (rooms st)) \<and> (\<forall>e \<in> set (rooms st). wf_room (snd e))"

text \<open>
  Host uniqueness in one room: at most one participant record has \<open>isHost\<close>; a record
  with \<open>isHost\<close> is the one of \<open>hostId\<close>; and an occupied host slot names a joined
  participant whose record has \<open>isHost\<close>.
\<close>

definition host_unique :: "room \<Rightarrow> bool" where
  "host_unique room \<longleftrightarrow>
     length (filter (\<lambda>e. isHost (snd e)) (participants room)) \<le> 1 \<and>
     (\<forall>e \<in> set (participants room).
        isHost (snd e) \<longrightarrow> hostId room = Some (fst e) \<and> id' (snd e) = fst e) \<and>
     (case hostId room of
        None \<Rightarrow> True
      | Some h \<Rightarrow> (case obj_get (participants room) h of
                     None \<Rightarrow> False
                   | Some p \<Rightarrow> isHost p))"

text \<open>The part of host uniqueness that does not count records.\<close>

definition host_slot_ok :: "room \<Rightarrow> bool" where
  "host_slot_ok room \<longleftrightarrow>
     (\<forall>e \<in> set (participants room). isHost (snd e) \<longrightarrow> hostId room = Some (fst e)) \<and>
     (case hostId room of
        None \<Rightarrow> True
      | Some h \<Rightarrow> (case obj_get (participants room) h of
                     None \<Rightarrow> False
                   | Some p \<Rightarrow> isHost p))"

definition host_unique_state :: "state \<Rightarrow> bool" where
  "host_unique_state st \<longleftrightarrow> (\<forall>e \<in> set (rooms st). host_unique (snd e))"

text \<open>
  Clients that never claim the host flag against a different sitting host, and hosts
  that never approve or remove themselves.
\<close>

fun host_policy :: "input \<Rightarrow> state \<Rightarrow> bool" where
  "host_policy (Join_room sid roomId uname pid isHostFlag) st =
     (case obj_get (rooms st) roomId of
        None \<Rightarrow> True
      | Some room \<Rightarrow> isHostFlag \<longrightarrow> hostId room = None \<or> hostId room = Some sid)"
| "host_policy (Approve_participant sid roomId participantId) st = (participantId \<noteq> sid)"
| "host_policy (Remove_participant sid roomId participantId pid) st = (participantId \<noteq> sid)"
| "host_policy e st = True"

text \<open>The joined set and the waiting set of a room share no key.\<close>

definition disjoint_sets :: "room \<Rightarrow> bool" where
  "disjoint_sets room \<longleftrightarrow>
     set (obj_keys (participants room)) \<inter> set (obj_keys (waitingParticipants room)) = {}"

definition disjoint_state :: "state \<Rightarrow> bool" where
  "disjoint_state st \<longleftrightarrow> (\<forall>e \<in> set (rooms st). disjoint_sets (snd e))"

text \<open>
  Clients that send \<^verbatim>\<open>join-room\<close> only when they are not yet in the other set of
  the room: not waiting when the request is admitted as host, not joined when it is put
  in the waiting room.
\<close>

fun rejoin_policy :: "input \<Rightarrow> state \<Rightarrow> bool" where
  "rejoin_policy (Join_room sid roomId uname pid isHostFlag) st =
     (case obj_get (rooms st) roomId of
        None \<Rightarrow> True
      | Some room \<Rightarrow>
          if isHostFlag \<or> hostId room = None
          then sid \<notin> set (obj_keys (waitingParticipants room))
          else sid \<notin> set (obj_keys (participants room)))"
| "rejoin_policy e st = True"

text \<open>The connections that are joined or waiting in a room; different rooms share none.\<close>

definition room_keys :: "room \<Rightarrow> string list" where
  "room_keys room = obj_keys (participants room) @ obj_keys (waitingParticipants room)"

definition single_room :: "state \<Rightarrow> bool" where
  "single_room st \<longleftrightarrow>
     (\<forall>e1 \<in> set (rooms st). \<forall>e2 \<in> set (rooms st).
        fst e1 \<noteq> fst e2 \<longrightarrow> set (room_keys (snd e1)) \<inter> set (room_keys (snd e2)) = {})"

text \<open>Clients that send \<^verbatim>\<open>join-room\<close> only when they are in no other room.\<close>

fun one_room_policy :: "input \<Rightarrow> state \<Rightarrow> bool" where
  "one_room_policy (Join_room sid roomId uname pid isHostFlag) st =
     (\<forall>e \<in> set (rooms st). fst e \<noteq> roomId \<longrightarrow> sid \<notin> set (room_keys (snd e)))"
| "one_room_policy e st = True"

text \<open>
  Joined participants are in the socket.io room of their room, and waiting entrants are
  connected.
\<close>

definition registered :: "state \<Rightarrow> bool" where
  "registered st \<longleftrightarrow>
     (\<forall>e \<in> set (rooms st).
        set (obj_keys (participants (snd e))) \<subseteq> set (members st (fst e)) \<and>
        set (obj_keys (waitingParticipants (snd e))) \<subseteq> set (sockets st))"

text \<open>Inputs that neither join a given room nor fire a clean-up timer for it.\<close>

fun leaves_alone :: "string \<Rightarrow> input \<Rightarrow> bool" where
  "leaves_alone r (Join_room sid roomId uname pid isHostFlag) = (roomId \<noteq> r)"
| "leaves_alone r (Timeout due roomId) = (roomId \<noteq> r)"
| "leaves_alone r e = True"

fun joins :: "string \<Rightarrow> input \<Rightarrow> bool" where
  "joins r (Join_room sid roomId uname pid isHostFlag) = (roomId = r)"
| "joins r e = False"


definition consistent :: "state \<Rightarrow> bool" where
  "consistent st \<longleftrightarrow> distinct (obj_keys (rooms st)) \<and> registered st"


definition others :: "string \<Rightarrow> participant obj \<Rightarrow> participant obj" where
  "others sid ps = filter (\<lambda>e. fst e \<noteq> sid) ps"

section \<open>Example runs\<close>

definition ex_waiting :: "(nat \<times> input) list" where
  "ex_waiting =
     [(0, Create_room ''r1''), (1, Connect ''a''), (2, Connect ''b''),
      (3, Join_room ''a'' ''r1'' ''alice'' ''pa'' False),
      (4, Join_room ''b'' ''r1'' ''bob'' ''pb'' False)]"

definition ex_meeting :: "(nat \<times> input) list" where
  "ex_meeting = ex_waiting @ [(5, Approve_participant ''a'' ''r1'' ''b'')]"

definition ex_takeover :: "(nat \<times> input) list" where
  "ex_takeover =
     [(0, Create_room ''r1''), (1, Connect ''a''), (2, Connect ''b''),
      (3, Join_room ''a'' ''r1'' ''alice'' ''pa'' False),
      (4, Join_room ''b'' ''r1'' ''bob'' ''pb'' True)]"

definition ex_rejoin :: "(nat \<times> input) list" where
  "ex_rejoin = ex_waiting @ [(5, Join_room ''b'' ''r1'' ''bob'' ''pb'' True)]"

definition ex_two_rooms :: "(nat \<times> input) list" where
  "ex_two_rooms =
     [(0, Create_room ''r1''), (1, Create_room ''r2''), (2, Connect ''a''),
      (3, Join_room ''a'' ''r1'' ''alice'' ''pa'' False),
      (4, Join_room ''a'' ''r2'' ''alice'' ''pa'' False)]"

definition ex_two_meetings :: "(nat \<times> input) list" where
  "ex_two_meetings =
     [(0, Create_room ''r1''), (1, Create_room ''r2''), (2, Connect ''a''), (3, Connect ''b''),
      (4, Join_room ''a'' ''r1'' ''alice'' ''pa'' False),
      (5, Join_room ''b'' ''r2'' ''bob'' ''pb'' False)]"

definition ex_hosted :: "(nat \<times> input) list" where
  "ex_hosted =
     [(0, Create_room ''r1''), (1, Connect ''a''), (2, Connect ''b''),
      (3, Join_room ''a'' ''r1'' ''alice'' ''pa'' False)]"

definition ex_three :: "(nat \<times> input) list" where
  "ex_three =
     [(0, Create_room ''r1''), (1, Connect ''a''), (2, Connect ''b''), (3, Connect ''c''),
      (4, Join_room ''a'' ''r1'' ''alice'' ''pa'' False),
      (5, Join_room ''c'' ''r1'' ''carol'' ''pc'' False),
      (6, Approve_participant ''a'' ''r1'' ''c''),
      (7, Join_room ''b'' ''r1'' ''bob'' ''pb'' False)]"

definition ex_abandoned :: "(nat \<times> input) list" where
  "ex_abandoned =
     [(0, Create_room ''r1''), (1, Connect ''a''), (2, Disconnect ''a''),
      (60002, Timeout 60002 ''r1'')]"



definition ex_elsewhere :: "(nat \<times> input) list" where
  "ex_elsewhere =
     [(1, Create_room ''r2''), (2, Connect ''a''),
      (3, Join_room ''a'' ''r2'' ''alice'' ''pa'' False),
      (4, Approve_participant ''a'' ''r1'' ''b''), (5, Disconnect ''a'')]"




section \<open>Plain objects: basic facts\<close>

lemma obj_get_set: "obj_get (obj_set k v ob) k' = (if k' = k then Some v else obj_get ob k')"
  by (induction ob) (auto simp: obj_get_def)

lemma obj_get_delete: "obj_get (obj_delete k ob) k' = (if k' = k then None else obj_get ob k')"
  by (induction ob) (auto simp: obj_get_def obj_delete_def)

lemma obj_keys_set: "set (obj_keys (obj_set k v ob)) = insert k (set (obj_keys ob))"
  by (induction ob) (auto simp: obj_keys_def)

lemma obj_keys_delete: "set (obj_keys (obj_delete k ob)) = set (obj_keys ob) - {k}"
  by (auto simp: obj_keys_def obj_delete_def)

lemma obj_get_None_iff: "obj_get ob k = None \<longleftrightarrow> k \<notin> set (obj_keys ob)"
  by (simp add: obj_get_def obj_keys_def map_of_eq_None_iff)

lemma obj_get_SomeD: "obj_get ob k = Some v \<Longrightarrow> (k, v) \<in> set ob"
  by (simp add: obj_get_def map_of_SomeD)

lemma set_obj_set_subset: "set (obj_set k v ob) \<subseteq> insert (k, v) (set ob)"
  by (induction ob) auto

lemma set_obj_delete_subset: "set (obj_delete k ob) \<subseteq> set ob"
  by (auto simp: obj_delete_def)

lemma distinct_obj_set: "distinct (obj_keys ob) \<Longrightarrow> distinct (obj_keys (obj_set k v ob))"
proof (induction ob)
  case Nil
  then show ?case by (simp add: obj_keys_def)
next
  case (Cons e ob)
  have "set (obj_keys (obj_set k v ob)) = insert k (set (obj_keys ob))"
    by (rule obj_keys_set)
  with Cons show ?case by (auto simp: obj_keys_def)
qed

lemma distinct_obj_delete: "distinct (obj_keys ob) \<Longrightarrow> distinct (obj_keys (obj_delete k ob))"
  by (simp add: obj_keys_def obj_delete_def distinct_map_filter)

lemmas eval_defs =
  init_state_def create_room_def new_room_def socket_connected_def socket_join_def
  socket_closed_def join_room_def approve_participant_def reject_participant_def
  remove_participant_def toggle_audio_def toggle_video_def get_waiting_participants_def
  disconnect_def disconnect_room_def cleanup_check_def is_empty_room_def grace_period_def
  is_host_of_def prop_get_def obj_get_def obj_keys_def obj_delete_def
  object_prototype_names_def host_record_def waiting_record_def approved_record_def
  io_to_def socket_to_def members_def received_def Let_def run_def any_input_def
  socket_id_def
  entrant.extend_def participant.fields_def

section \<open>Host commands on a room that does not exist\<close>

lemma is_host_of_absent: "obj_get (rooms st) roomId = None \<Longrightarrow> is_host_of st sid roomId = None"
  by (simp add: is_host_of_def prop_get_def)

lemma is_host_of_other:
  "obj_get (rooms st) roomId = Some room \<Longrightarrow> hostId room \<noteq> Some sid \<Longrightarrow>
   is_host_of st sid roomId = None"
  by (simp add: is_host_of_def prop_get_def)

text \<open>
  C10. An \<^verbatim>\<open>approve-participant\<close>, \<^verbatim>\<open>reject-participant\<close> or
  \<^verbatim>\<open>remove-participant\<close> event naming a room that is not in the registry leaves the
  state as it is and sends the caller the error that a caller who is not the host of an
  existing room gets (``Unauthorized'', for removal ``Only host can remove
  participants''), not a room-not-found error: the two cases produce the same effects.
\<close>

theorem host_commands_unknown_room:
  assumes absent: "obj_get (rooms st) roomId = None"
    and present: "obj_get (rooms st') roomId' = Some room'"
    and nonhost: "hostId room' \<noteq> Some sid"
  shows "approve_participant sid roomId participantId st
           = (st, [Emit [sid] (Error_msg ''Unauthorized'')]) \<and>
         reject_participant now sid roomId participantId st
           = (st, [Emit [sid] (Error_msg ''Unauthorized'')]) \<and>
         remove_participant now sid roomId participantId pid st
           = (st, [Emit [sid] (Error_msg ''Only host can remove participants'')]) \<and>
         approve_participant sid roomId' participantId st'
           = (st', [Emit [sid] (Error_msg ''Unauthorized'')]) \<and>
         reject_participant now sid roomId' participantId st'
           = (st', [Emit [sid] (Error_msg ''Unauthorized'')]) \<and>
         remove_participant now sid roomId' participantId pid st'
           = (st', [Emit [sid] (Error_msg ''Only host can remove participants'')])"
  using is_host_of_absent [OF absent, of sid] is_host_of_other [OF present nonhost]
  by (simp add: approve_participant_def reject_participant_def remove_participant_def)

theorem host_commands_unknown_room_witness:
  "obj_get (rooms init_state) ''r1'' = None \<and>
   obj_get (rooms (the (run ex_waiting init_state))) ''r1'' \<noteq> None \<and>
   hostId (the (obj_get (rooms (the (run ex_waiting init_state))) ''r1'')) \<noteq> Some ''b'' \<and>
   approve_participant ''b'' ''r1'' ''a'' init_state
     = (init_state, [Emit [''b''] (Error_msg ''Unauthorized'')]) \<and>
   approve_participant ''b'' ''r1'' ''a'' (the (run ex_waiting init_state))
     = (the (run ex_waiting init_state), [Emit [''b''] (Error_msg ''Unauthorized'')]) \<and>
   remove_participant 9 ''b'' ''r1'' ''a'' ''pa'' (the (run ex_waiting init_state))
     = (the (run ex_waiting init_state),
        [Emit [''b''] (Error_msg ''Only host can remove participants'')])"
proof -
  have absent: "obj_get (rooms init_state) ''r1'' = None"
    by (simp add: init_state_def obj_get_def)
  have present: "obj_get (rooms (the (run ex_waiting init_state))) ''r1''
                   = Some (the (obj_get (rooms (the (run ex_waiting init_state))) ''r1''))"
    by (simp add: ex_waiting_def eval_defs)
  have nonhost: "hostId (the (obj_get (rooms (the (run ex_waiting init_state))) ''r1''))
                   \<noteq> Some ''b''"
    by (simp add: ex_waiting_def eval_defs)
  from present have ex: "obj_get (rooms (the (run ex_waiting init_state))) ''r1'' \<noteq> None"
    by (metis option.distinct(1))
  from host_commands_unknown_room [OF absent present nonhost, of "''a''" 9 "''pa''"]
       absent ex nonhost
  show ?thesis by blast
qed

section \<open>Joining a room that does not exist\<close>

lemma join_room_unknown:
  assumes "prop_get (rooms st) roomId = Undefined"
  shows "join_room now sid roomId uname pid isHostFlag st
           = Inr (st, [Emit [sid] (Room_error ''Room does not exist'')])"
  using assms by (simp add: join_room_def)

text \<open>
  C9. A \<^verbatim>\<open>join-room\<close> request whose room id is not in the registry should get
  \<^verbatim>\<open>room-error\<close> and change nothing. For the id \<^verbatim>\<open>constructor\<close>, which no room
  of the registry has, the test \<^verbatim>\<open>!rooms[roomId]\<close> finds the inherited property and
  the handler goes on to \<^verbatim>\<open>room.participants[participantId] = ...\<close>, which throws:
  no \<^verbatim>\<open>room-error\<close> is sent.
\<close>

theorem join_room_inherited_name:
  "obj_get (rooms (socket_connected ''a'' init_state)) ''constructor'' = None \<and>
   join_room 1 ''a'' ''constructor'' ''alice'' ''pa'' False (socket_connected ''a'' init_state)
     = Inl TypeError"
  by (simp add: eval_defs)

section \<open>What one step does to the registry\<close>

lemma prop_get_Own: "prop_get ob k = Own v \<longleftrightarrow> obj_get ob k = Some v"
  by (auto simp: prop_get_def split: option.splits)

lemma is_host_of_Some:
  "is_host_of st sid roomId = Some room \<longleftrightarrow>
   obj_get (rooms st) roomId = Some room \<and> hostId room = Some sid"
  by (auto simp: is_host_of_def prop_get_def split: option.splits)

lemma rooms_socket_join [simp]: "rooms (socket_join sid r st) = rooms st"
  by (simp add: socket_join_def)

lemma sockets_socket_join [simp]: "sockets (socket_join sid r st) = sockets st"
  by (simp add: socket_join_def)

lemma timers_socket_join [simp]: "timers (socket_join sid r st) = timers st"
  by (simp add: socket_join_def)

lemma handle_cases [consumes 1,
    case_names Create Connect Idle Join_host Join_wait Approve Reject Toggle Remove
      Disconnect Cleanup]:
  assumes "handle now e st = Inr (st', out)"
  obtains
    (Create) roomId where "e = Create_room roomId" "st' = create_room now roomId st"
  | (Connect) sid where "e = Connect sid" "st' = socket_connected sid st"
  | (Idle) "rooms st' = rooms st" "sockets st' = sockets st" "joined st' = joined st"
  | (Join_host) sid roomId uname pid flag room where
      "e = Join_room sid roomId uname pid flag"
      "obj_get (rooms st) roomId = Some room" "flag \<or> hostId room = None"
      "st' = (socket_join sid roomId st)\<lparr>rooms :=
               obj_set roomId
                 (room\<lparr>hostId := Some sid, hostPeerId := Some pid,
                       participants := obj_set sid (host_record now sid uname pid)
                                         (participants room)\<rparr>)
                 (rooms st)\<rparr>"
  | (Join_wait) sid roomId uname pid flag room where
      "e = Join_room sid roomId uname pid flag"
      "obj_get (rooms st) roomId = Some room" "\<not> flag" "hostId room \<noteq> None"
      "st' = st\<lparr>rooms :=
               obj_set roomId
                 (room\<lparr>waitingParticipants :=
                         obj_set sid (waiting_record now sid uname pid)
                           (waitingParticipants room)\<rparr>)
                 (rooms st)\<rparr>"
  | (Approve) sid roomId participantId room w where
      "e = Approve_participant sid roomId participantId"
      "obj_get (rooms st) roomId = Some room" "hostId room = Some sid"
      "obj_get (waitingParticipants room) participantId = Some w"
      "st' = (if participantId \<in> set (sockets st)
              then socket_join participantId roomId else (\<lambda>s. s))
               (st\<lparr>rooms :=
                  obj_set roomId
                    (room\<lparr>participants :=
                            obj_set participantId (approved_record w) (participants room),
                          waitingParticipants :=
                            obj_delete participantId (waitingParticipants room)\<rparr>)
                    (rooms st)\<rparr>)"
  | (Reject) sid roomId participantId room w st1 where
      "e = Reject_participant sid roomId participantId"
      "obj_get (rooms st) roomId = Some room" "hostId room = Some sid"
      "obj_get (waitingParticipants room) participantId = Some w"
      "st1 = st\<lparr>rooms :=
               obj_set roomId
                 (room\<lparr>waitingParticipants :=
                         obj_delete participantId (waitingParticipants room)\<rparr>)
                 (rooms st)\<rparr>"
      "st' = (if participantId \<in> set (sockets st)
              then fst (disconnect now participantId st1) else st1)"
  | (Toggle) sid roomId room p p' where
      "obj_get (rooms st) roomId = Some room"
      "obj_get (participants room) sid = Some p"
      "id' p' = id' p" "isHost p' = isHost p"
      "st' = st\<lparr>rooms :=
               obj_set roomId
                 (room\<lparr>participants := obj_set sid p' (participants room)\<rparr>)
                 (rooms st)\<rparr>"
  | (Remove) sid roomId participantId pid room p st1 where
      "e = Remove_participant sid roomId participantId pid"
      "obj_get (rooms st) roomId = Some room" "hostId room = Some sid"
      "obj_get (participants room) participantId = Some p"
      "st1 = st\<lparr>rooms :=
               obj_set roomId
                 (room\<lparr>participants := obj_delete participantId (participants room)\<rparr>)
                 (rooms st)\<rparr>"
      "st' = (if participantId \<in> set (sockets st)
              then fst (disconnect now participantId st1) else st1)"
  | (Disconnect) sid where "e = Disconnect sid" "st' = fst (disconnect now sid st)"
  | (Cleanup) due roomId room where
      "e = Timeout due roomId" "obj_get (rooms st) roomId = Some room" "is_empty_room room"
      "st' = st\<lparr>timers := remove1 (due, roomId) (timers st),
                 rooms := obj_delete roomId (rooms st)\<rparr>"
proof (cases e)
  case (Create_room roomId)
  with assms show ?thesis by (auto intro: that(1))
next
  case (Connect sid)
  with assms show ?thesis by (auto intro: that(2))
next
  case (Join_room sid roomId uname pid flag)
  show ?thesis
  proof (cases "prop_get (rooms st) roomId")
    case Undefined
    with assms Join_room show ?thesis by (auto simp: join_room_def intro: that(3))
  next
    case Inherited
    with assms Join_room show ?thesis by (auto simp: join_room_def)
  next
    case (Own room)
    then have get: "obj_get (rooms st) roomId = Some room" by (simp add: prop_get_Own)
    show ?thesis
    proof (cases "flag \<or> hostId room = None")
      case True
      with assms Join_room Own get show ?thesis
        by (intro that(4) [of sid roomId uname pid flag room])
           (auto simp: join_room_def Let_def)
    next
      case False
      with assms Join_room Own get show ?thesis
        by (intro that(5) [of sid roomId uname pid flag room])
           (auto simp: join_room_def Let_def)
    qed
  qed
next
  case (Approve_participant sid roomId participantId)
  show ?thesis
  proof (cases "is_host_of st sid roomId")
    case None
    with assms Approve_participant show ?thesis
      by (auto simp: approve_participant_def intro: that(3))
  next
    case (Some room)
    then have room: "obj_get (rooms st) roomId = Some room" "hostId room = Some sid"
      by (simp_all add: is_host_of_Some)
    show ?thesis
    proof (cases "obj_get (waitingParticipants room) participantId")
      case None
      with assms Approve_participant Some show ?thesis
        by (auto simp: approve_participant_def intro: that(3))
    next
      case (Some w)
      with assms Approve_participant \<open>is_host_of st sid roomId = Some room\<close> room show ?thesis
        by (intro that(6) [of sid roomId participantId room w])
           (auto simp: approve_participant_def Let_def split: if_splits)
    qed
  qed
next
  case (Reject_participant sid roomId participantId)
  show ?thesis
  proof (cases "is_host_of st sid roomId")
    case None
    with assms Reject_participant show ?thesis
      by (auto simp: reject_participant_def intro: that(3))
  next
    case (Some room)
    then have room: "obj_get (rooms st) roomId = Some room" "hostId room = Some sid"
      by (simp_all add: is_host_of_Some)
    show ?thesis
    proof (cases "obj_get (waitingParticipants room) participantId")
      case None
      with assms Reject_participant Some show ?thesis
        by (auto simp: reject_participant_def intro: that(3))
    next
      case (Some w)
      with assms Reject_participant \<open>is_host_of st sid roomId = Some room\<close> room show ?thesis
        by (intro that(7) [of sid roomId participantId room w
              "st\<lparr>rooms := obj_set roomId
                 (room\<lparr>waitingParticipants :=
                         obj_delete participantId (waitingParticipants room)\<rparr>)
                 (rooms st)\<rparr>"])
           (auto simp: reject_participant_def Let_def split: if_splits)
    qed
  qed
next
  case (Toggle_audio sid roomId pid enabled)
  show ?thesis
  proof (cases "prop_get (rooms st) roomId")
    case Undefined
    with assms Toggle_audio show ?thesis by (auto simp: toggle_audio_def intro: that(3))
  next
    case Inherited
    with assms Toggle_audio show ?thesis by (auto simp: toggle_audio_def)
  next
    case (Own room)
    then have get: "obj_get (rooms st) roomId = Some room" by (simp add: prop_get_Own)
    show ?thesis
    proof (cases "obj_get (participants room) sid")
      case None
      with assms Toggle_audio Own show ?thesis by (auto simp: toggle_audio_def intro: that(3))
    next
      case (Some p)
      with assms Toggle_audio Own get show ?thesis
        by (intro that(8) [of roomId room sid p "p\<lparr>audioEnabled := enabled\<rparr>"])
           (auto simp: toggle_audio_def Let_def)
    qed
  qed
next
  case (Toggle_video sid roomId pid enabled)
  show ?thesis
  proof (cases "prop_get (rooms st) roomId")
    case Undefined
    with assms Toggle_video show ?thesis by (auto simp: toggle_video_def intro: that(3))
  next
    case Inherited
    with assms Toggle_video show ?thesis by (auto simp: toggle_video_def)
  next
    case (Own room)
    then have get: "obj_get (rooms st) roomId = Some room" by (simp add: prop_get_Own)
    show ?thesis
    proof (cases "obj_get (participants room) sid")
      case None
      with assms Toggle_video Own show ?thesis by (auto simp: toggle_video_def intro: that(3))
    next
      case (Some p)
      with assms Toggle_video Own get show ?thesis
        by (intro that(8) [of roomId room sid p "p\<lparr>videoEnabled := enabled\<rparr>"])
           (auto simp: toggle_video_def Let_def)
    qed
  qed
next
  case (Remove_participant sid roomId participantId pid)
  show ?thesis
  proof (cases "is_host_of st sid roomId")
    case None
    with assms Remove_participant show ?thesis
      by (auto simp: remove_participant_def intro: that(3))
  next
    case (Some room)
    then have room: "obj_get (rooms st) roomId = Some room" "hostId room = Some sid"
      by (simp_all add: is_host_of_Some)
    show ?thesis
    proof (cases "obj_get (participants room) participantId")
      case None
      with assms Remove_participant Some show ?thesis
        by (auto simp: remove_participant_def intro: that(3))
    next
      case (Some p)
      with assms Remove_participant \<open>is_host_of st sid roomId = Some room\<close> room show ?thesis
        by (intro that(9) [of sid roomId participantId pid room p
              "st\<lparr>rooms := obj_set roomId
                 (room\<lparr>participants := obj_delete participantId (participants room)\<rparr>)
                 (rooms st)\<rparr>"])
           (auto simp: remove_participant_def Let_def split: if_splits)
    qed
  qed
next
  case (Get_waiting_participants sid roomId)
  with assms show ?thesis
    by (auto simp: get_waiting_participants_def split: option.splits intro: that(3))
next
  case (Disconnect sid)
  with assms show ?thesis by (auto intro: that(10))
next
  case (Timeout due roomId)
  show ?thesis
  proof (cases "obj_get (rooms st) roomId")
    case None
    with assms Timeout show ?thesis by (auto simp: cleanup_check_def intro: that(3))
  next
    case (Some room)
    show ?thesis
    proof (cases "is_empty_room room")
      case True
      with assms Timeout Some show ?thesis
        by (intro that(11) [of due roomId room]) (auto simp: cleanup_check_def)
    next
      case False
      with assms Timeout Some show ?thesis by (auto simp: cleanup_check_def intro: that(3))
    qed
  qed
qed


lemma obj_delete_absent: "obj_get ob k = None \<Longrightarrow> obj_delete k ob = ob"
  by (auto simp: obj_get_None_iff obj_keys_def obj_delete_def filter_id_conv)

lemma disconnect_room_fst:
  "fst (disconnect_room st sid rid room) =
     room\<lparr>hostId := (if obj_get (participants room) sid \<noteq> None \<and> hostId room = Some sid
                      then None else hostId room),
          hostPeerId := (if obj_get (participants room) sid \<noteq> None \<and> hostId room = Some sid
                         then None else hostPeerId room),
          participants := obj_delete sid (participants room),
          waitingParticipants := obj_delete sid (waitingParticipants room)\<rparr>"
  by (auto simp: disconnect_room_def Let_def obj_delete_absent split: option.splits)

lemma rooms_disconnect:
  "rooms (fst (disconnect now sid st)) =
     map (\<lambda>e. (fst e, fst (disconnect_room (socket_closed sid st) sid (fst e) (snd e))))
       (rooms st)"
  by (simp add: disconnect_def Let_def socket_closed_def case_prod_unfold comp_def)



lemma all_rooms_obj_set:
  "\<forall>x \<in> set rs. Q (snd x) \<Longrightarrow> Q v \<Longrightarrow> \<forall>x \<in> set (obj_set k v rs). Q (snd x)"
  using set_obj_set_subset [of k v rs] by auto

lemma all_rooms_get: "\<forall>x \<in> set rs. Q (snd x) \<Longrightarrow> obj_get rs k = Some r \<Longrightarrow> Q r"
  by (metis obj_get_SomeD snd_conv)

lemma all_rooms_disconnect:
  assumes inv: "\<forall>x \<in> set (rooms st). Q (snd x)"
    and disconnect: "\<And>room.
          Q room \<Longrightarrow>
          Q (room\<lparr>hostId := (if obj_get (participants room) sid \<noteq> None \<and>
                                 hostId room = Some sid then None else hostId room),
                  hostPeerId := (if obj_get (participants room) sid \<noteq> None \<and>
                                     hostId room = Some sid then None else hostPeerId room),
                  participants := obj_delete sid (participants room),
                  waitingParticipants := obj_delete sid (waitingParticipants room)\<rparr>)"
  shows "\<forall>x \<in> set (rooms (fst (disconnect now sid st))). Q (snd x)"
proof
  fix x assume "x \<in> set (rooms (fst (disconnect now sid st)))"
  then obtain y where y: "y \<in> set (rooms st)"
    and x: "x = (fst y, fst (disconnect_room (socket_closed sid st) sid (fst y) (snd y)))"
    by (auto simp: rooms_disconnect)
  from inv y have "Q (snd y)" by blast
  from disconnect [OF this] show "Q (snd x)"
    by (simp add: x disconnect_room_fst)
qed

lemma room_inv_step:
  assumes step: "handle now e st = Inr (st', out)"
    and inv: "\<forall>x \<in> set (rooms st). Q (snd x)"
    and create: "\<And>r. Q (new_room now r)"
    and join_host: "\<And>sid roomId uname pid flag room.
          e = Join_room sid roomId uname pid flag \<Longrightarrow> obj_get (rooms st) roomId = Some room \<Longrightarrow>
          Q room \<Longrightarrow> flag \<or> hostId room = None \<Longrightarrow>
          Q (room\<lparr>hostId := Some sid, hostPeerId := Some pid,
                  participants := obj_set sid (host_record now sid uname pid)
                                    (participants room)\<rparr>)"
    and join_wait: "\<And>sid roomId uname pid flag room.
          e = Join_room sid roomId uname pid flag \<Longrightarrow> obj_get (rooms st) roomId = Some room \<Longrightarrow>
          Q room \<Longrightarrow> \<not> flag \<Longrightarrow> hostId room \<noteq> None \<Longrightarrow>
          Q (room\<lparr>waitingParticipants :=
                    obj_set sid (waiting_record now sid uname pid)
                      (waitingParticipants room)\<rparr>)"
    and approve: "\<And>sid roomId participantId room w.
          e = Approve_participant sid roomId participantId \<Longrightarrow> Q room \<Longrightarrow>
          hostId room = Some sid \<Longrightarrow>
          obj_get (waitingParticipants room) participantId = Some w \<Longrightarrow>
          Q (room\<lparr>participants :=
                    obj_set participantId (approved_record w) (participants room),
                  waitingParticipants :=
                    obj_delete participantId (waitingParticipants room)\<rparr>)"
    and reject: "\<And>participantId room.
          Q room \<Longrightarrow>
          Q (room\<lparr>waitingParticipants :=
                    obj_delete participantId (waitingParticipants room)\<rparr>)"
    and toggle: "\<And>sid room p p'.
          Q room \<Longrightarrow> obj_get (participants room) sid = Some p \<Longrightarrow>
          id' p' = id' p \<Longrightarrow> isHost p' = isHost p \<Longrightarrow>
          Q (room\<lparr>participants := obj_set sid p' (participants room)\<rparr>)"
    and remove: "\<And>sid roomId participantId pid room.
          e = Remove_participant sid roomId participantId pid \<Longrightarrow> Q room \<Longrightarrow>
          hostId room = Some sid \<Longrightarrow>
          Q (room\<lparr>participants := obj_delete participantId (participants room)\<rparr>)"
    and disconnect: "\<And>sid room.
          Q room \<Longrightarrow>
          Q (room\<lparr>hostId := (if obj_get (participants room) sid \<noteq> None \<and>
                                 hostId room = Some sid then None else hostId room),
                  hostPeerId := (if obj_get (participants room) sid \<noteq> None \<and>
                                     hostId room = Some sid then None else hostPeerId room),
                  participants := obj_delete sid (participants room),
                  waitingParticipants := obj_delete sid (waitingParticipants room)\<rparr>)"
  shows "\<forall>x \<in> set (rooms st'). Q (snd x)"
  using step
proof (cases rule: handle_cases)
  case (Create roomId)
  from all_rooms_obj_set [where k = roomId and v = "new_room now roomId", OF inv create] Create
  show ?thesis by (simp add: create_room_def)
next
  case (Connect sid)
  with inv show ?thesis by (simp add: socket_connected_def)
next
  case Idle
  with inv show ?thesis by simp
next
  case (Join_host sid roomId uname pid flag room)
  from inv Join_host(2) have "Q room" by (rule all_rooms_get)
  from all_rooms_obj_set [OF inv join_host [OF Join_host(1,2) this Join_host(3)], of roomId]
  show ?thesis by (simp add: Join_host(4))
next
  case (Join_wait sid roomId uname pid flag room)
  from inv Join_wait(2) have "Q room" by (rule all_rooms_get)
  from all_rooms_obj_set [OF inv join_wait [OF Join_wait(1,2) this Join_wait(3,4)], of roomId]
  show ?thesis by (simp add: Join_wait(5))
next
  case (Approve sid roomId participantId room w)
  from inv Approve(2) have "Q room" by (rule all_rooms_get)
  from all_rooms_obj_set [OF inv approve [OF Approve(1) this Approve(3,4)], of roomId]
  show ?thesis by (simp add: Approve(5))
next
  case (Reject sid roomId participantId room w st1)
  from inv Reject(2) have "Q room" by (rule all_rooms_get)
  from all_rooms_obj_set [OF inv reject [OF this], of roomId participantId]
  have inv1: "\<forall>x \<in> set (rooms st1). Q (snd x)" by (simp add: Reject(5))
  show ?thesis
  proof (cases "participantId \<in> set (sockets st)")
    case True
    from all_rooms_disconnect [where Q = Q and sid = participantId and now = now, OF inv1 disconnect] True
    show ?thesis by (simp add: Reject(6))
  next
    case False
    with inv1 show ?thesis by (simp add: Reject(6))
  qed
next
  case (Toggle sid roomId room p p')
  from inv Toggle(1) have "Q room" by (rule all_rooms_get)
  from all_rooms_obj_set [OF inv toggle [OF this Toggle(2,3,4)], of roomId]
  show ?thesis by (simp add: Toggle(5))
next
  case (Remove sid roomId participantId pid room p st1)
  from inv Remove(2) have "Q room" by (rule all_rooms_get)
  from all_rooms_obj_set [OF inv remove [OF Remove(1) this Remove(3)], of roomId]
  have inv1: "\<forall>x \<in> set (rooms st1). Q (snd x)" by (simp add: Remove(5))
  show ?thesis
  proof (cases "participantId \<in> set (sockets st)")
    case True
    from all_rooms_disconnect [where Q = Q and sid = participantId and now = now, OF inv1 disconnect] True
    show ?thesis by (simp add: Remove(6))
  next
    case False
    with inv1 show ?thesis by (simp add: Remove(6))
  qed
next
  case (Disconnect sid)
  from all_rooms_disconnect [where Q = Q and sid = sid and now = now, OF inv disconnect]
  show ?thesis by (simp add: Disconnect(2))
next
  case (Cleanup due roomId room)
  with inv set_obj_delete_subset [of roomId "rooms st"] show ?thesis by auto
qed

section \<open>Unique keys and ids\<close>

lemma approved_record_simps [simp]:
  "id' (approved_record w) = id' w"
  "username (approved_record w) = username w"
  "peerId (approved_record w) = peerId w"
  "isHost (approved_record w) = False"
  by (simp_all add: approved_record_def entrant.extend_def participant.fields_def)

lemma host_record_simps [simp]:
  "id' (host_record now sid uname pid) = sid"
  "isHost (host_record now sid uname pid) = True"
  by (simp_all add: host_record_def)

lemma waiting_record_simps [simp]:
  "id' (waiting_record now sid uname pid) = sid"
  "username (waiting_record now sid uname pid) = uname"
  "peerId (waiting_record now sid uname pid) = pid"
  by (simp_all add: waiting_record_def)

lemma in_obj_setD: "e \<in> set (obj_set k v ob) \<Longrightarrow> e = (k, v) \<or> e \<in> set ob"
  using set_obj_set_subset [of k v ob] by auto

lemma in_obj_deleteD: "e \<in> set (obj_delete k ob) \<Longrightarrow> e \<in> set ob \<and> fst e \<noteq> k"
  by (simp add: obj_delete_def)

lemma wf_room_new: "wf_room (new_room now r)"
  by (simp add: wf_room_def new_room_def obj_keys_def)

lemma wf_room_participants_set:
  "wf_room room \<Longrightarrow> id' v = k \<Longrightarrow> wf_room (room\<lparr>participants := obj_set k v (participants room)\<rparr>)"
  by (auto simp: wf_room_def distinct_obj_set dest!: in_obj_setD)

lemma wf_room_waiting_set:
  "wf_room room \<Longrightarrow> id' v = k \<Longrightarrow>
   wf_room (room\<lparr>waitingParticipants := obj_set k v (waitingParticipants room)\<rparr>)"
  by (auto simp: wf_room_def distinct_obj_set dest!: in_obj_setD)

lemma wf_room_participants_delete:
  "wf_room room \<Longrightarrow> wf_room (room\<lparr>participants := obj_delete k (participants room)\<rparr>)"
  by (auto simp: wf_room_def distinct_obj_delete dest!: in_obj_deleteD)

lemma wf_room_waiting_delete:
  "wf_room room \<Longrightarrow>
   wf_room (room\<lparr>waitingParticipants := obj_delete k (waitingParticipants room)\<rparr>)"
  by (auto simp: wf_room_def distinct_obj_delete dest!: in_obj_deleteD)

lemma wf_room_host [simp]:
  "wf_room (room\<lparr>hostId := h\<rparr>) = wf_room room"
  "wf_room (room\<lparr>hostPeerId := hp\<rparr>) = wf_room room"
  by (simp_all add: wf_room_def)

lemma wf_room_entry_id:
  "wf_room room \<Longrightarrow> obj_get (participants room) k = Some p \<Longrightarrow> id' p = k"
  "wf_room room \<Longrightarrow> obj_get (waitingParticipants room) k = Some w \<Longrightarrow> id' w = k"
  by (auto simp: wf_room_def dest!: obj_get_SomeD)

lemma wf_rooms_step:
  assumes "handle now e st = Inr (st', out)" and "\<forall>x \<in> set (rooms st). wf_room (snd x)"
  shows "\<forall>x \<in> set (rooms st'). wf_room (snd x)"
  using assms
proof (rule room_inv_step)
  fix sid roomId uname pid flag and room :: room
  assume "wf_room room"
  then show "wf_room (room\<lparr>hostId := Some sid, hostPeerId := Some pid,
                participants := obj_set sid (host_record now sid uname pid) (participants room)\<rparr>)"
    using wf_room_participants_set
            [of "room\<lparr>hostId := Some sid, hostPeerId := Some pid\<rparr>"
                "host_record now sid uname pid" sid]
    by simp
  show "wf_room (room\<lparr>waitingParticipants :=
                obj_set sid (waiting_record now sid uname pid) (waitingParticipants room)\<rparr>)"
    using \<open>wf_room room\<close> by (simp add: wf_room_waiting_set)
next
  fix participantId w and room :: room
  assume "wf_room room" "obj_get (waitingParticipants room) participantId = Some w"
  then show "wf_room (room\<lparr>participants :=
                  obj_set participantId (approved_record w) (participants room),
                waitingParticipants := obj_delete participantId (waitingParticipants room)\<rparr>)"
    using wf_room_waiting_delete
            [of "room\<lparr>participants :=
                        obj_set participantId (approved_record w) (participants room)\<rparr>"
                participantId]
    by (simp add: wf_room_participants_set wf_room_entry_id)
next
  fix sid and p p' :: participant and room :: room
  assume "wf_room room" "obj_get (participants room) sid = Some p" "id' p' = id' p"
  then show "wf_room (room\<lparr>participants := obj_set sid p' (participants room)\<rparr>)"
    by (simp add: wf_room_participants_set wf_room_entry_id)
next
  fix sid and room :: room
  assume "wf_room room"
  then show "wf_room (room\<lparr>hostId := (if obj_get (participants room) sid \<noteq> None \<and>
                                 hostId room = Some sid then None else hostId room),
                  hostPeerId := (if obj_get (participants room) sid \<noteq> None \<and>
                                     hostId room = Some sid then None else hostPeerId room),
                  participants := obj_delete sid (participants room),
                  waitingParticipants := obj_delete sid (waitingParticipants room)\<rparr>)"
    by (auto simp: wf_room_def distinct_obj_delete dest!: in_obj_deleteD)
qed (simp_all add: wf_room_new wf_room_participants_delete wf_room_waiting_delete)

lemma obj_keys_rooms_disconnect [simp]:
  "obj_keys (rooms (fst (disconnect now sid st))) = obj_keys (rooms st)"
  by (simp add: rooms_disconnect obj_keys_def comp_def)

lemma rooms_keys_step:
  assumes "handle now e st = Inr (st', out)" and "possible now e st"
    and "distinct (obj_keys (rooms st))"
  shows "distinct (obj_keys (rooms st'))"
  using assms(1)
proof (cases rule: handle_cases)
  case (Disconnect sid)
  with assms(3) show ?thesis by simp
qed (use assms(3) in \<open>simp_all add: create_room_def socket_connected_def distinct_obj_set
       distinct_obj_delete\<close>)

lemma reachable_under_wf:
  assumes "reachable_under P st"
  shows "wf_state st"
  using assms
proof (induction rule: reachable_under.induct)
  case start
  show ?case by (simp add: wf_state_def init_state_def obj_keys_def)
next
  case (step st now e st' out)
  then show ?case
    using wf_rooms_step [of now e st st' out] rooms_keys_step [of now e st st' out]
    by (simp add: wf_state_def)
qed

lemma run_under_reachable:
  "reachable_under P st \<Longrightarrow> run_under P es st = Some st' \<Longrightarrow> reachable_under P st'"
proof (induction es arbitrary: st)
  case Nil
  then show ?case by simp
next
  case (Cons x es)
  obtain now e where x: "x = (now, e)" by (cases x)
  from Cons.prems(2) x have ok: "possible now e st" "P e st"
    by (auto split: if_splits)
  with Cons.prems(2) x obtain st1 out where h: "handle now e st = Inr (st1, out)"
    and rest: "run_under P es st1 = Some st'"
    by (auto split: sum.splits)
  from Cons.prems(1) ok h have "reachable_under P st1"
    by (rule reachable_under.step)
  from Cons.IH [OF this rest] show ?case .
qed

lemma run_reachable: "run es init_state = Some st \<Longrightarrow> reachable st"
  unfolding run_def reachable_def
  by (rule run_under_reachable [OF reachable_under.start])

lemma obj_get_Some_key: "obj_get ob k = Some v \<Longrightarrow> k \<in> set (obj_keys ob)"
  using obj_get_None_iff [of ob k] by auto

section \<open>The joined set and the waiting set\<close>

lemma disjoint_rooms_step:
  assumes step: "handle now e st = Inr (st', out)"
    and pol: "rejoin_policy e st"
    and inv: "\<forall>x \<in> set (rooms st). disjoint_sets (snd x)"
  shows "\<forall>x \<in> set (rooms st'). disjoint_sets (snd x)"
  using step inv
proof (rule room_inv_step)
  fix r show "disjoint_sets (new_room now r)"
    by (simp add: disjoint_sets_def new_room_def obj_keys_def)
next
  fix sid roomId uname pid flag and room :: room
  assume e: "e = Join_room sid roomId uname pid flag"
    and get: "obj_get (rooms st) roomId = Some room"
    and d: "disjoint_sets room" and host: "flag \<or> hostId room = None"
  from pol e get host have "sid \<notin> set (obj_keys (waitingParticipants room))" by auto
  with d show "disjoint_sets (room\<lparr>hostId := Some sid, hostPeerId := Some pid,
      participants := obj_set sid (host_record now sid uname pid) (participants room)\<rparr>)"
    by (simp add: disjoint_sets_def obj_keys_set)
next
  fix sid roomId uname pid flag and room :: room
  assume e: "e = Join_room sid roomId uname pid flag"
    and get: "obj_get (rooms st) roomId = Some room"
    and d: "disjoint_sets room" and wait: "\<not> flag" "hostId room \<noteq> None"
  from pol e get wait have "sid \<notin> set (obj_keys (participants room))" by auto
  with d show "disjoint_sets (room\<lparr>waitingParticipants :=
      obj_set sid (waiting_record now sid uname pid) (waitingParticipants room)\<rparr>)"
    by (simp add: disjoint_sets_def obj_keys_set)
next
  fix participantId w and room :: room
  assume "disjoint_sets room"
  then show "disjoint_sets (room\<lparr>participants :=
        obj_set participantId (approved_record w) (participants room),
      waitingParticipants := obj_delete participantId (waitingParticipants room)\<rparr>)"
    by (auto simp: disjoint_sets_def obj_keys_set obj_keys_delete)
next
  fix participantId and room :: room
  assume "disjoint_sets room"
  then show "disjoint_sets (room\<lparr>waitingParticipants :=
      obj_delete participantId (waitingParticipants room)\<rparr>)"
    by (auto simp: disjoint_sets_def obj_keys_delete)
  from \<open>disjoint_sets room\<close>
  show "disjoint_sets (room\<lparr>participants := obj_delete participantId (participants room)\<rparr>)"
    by (auto simp: disjoint_sets_def obj_keys_delete)
next
  fix sid and p p' :: participant and room :: room
  assume "disjoint_sets room" "obj_get (participants room) sid = Some p"
  then show "disjoint_sets (room\<lparr>participants := obj_set sid p' (participants room)\<rparr>)"
    by (auto simp: disjoint_sets_def obj_keys_set dest: obj_get_Some_key)
next
  fix sid and room :: room
  assume "disjoint_sets room"
  then show "disjoint_sets (room\<lparr>hostId := (if obj_get (participants room) sid \<noteq> None \<and>
                                 hostId room = Some sid then None else hostId room),
                  hostPeerId := (if obj_get (participants room) sid \<noteq> None \<and>
                                     hostId room = Some sid then None else hostPeerId room),
                  participants := obj_delete sid (participants room),
                  waitingParticipants := obj_delete sid (waitingParticipants room)\<rparr>)"
    by (auto simp: disjoint_sets_def obj_keys_delete)
qed

text \<open>
  C2 (as amended). In every state reached by inputs in which a \<^verbatim>\<open>join-room\<close> request
  admitted as host comes from a connection that is not in the waiting set of the room,
  and one that is put in the waiting room comes from a connection that is not in its
  joined set, the keys of \<^verbatim>\<open>participants\<close> and of \<^verbatim>\<open>waitingParticipants\<close> are
  disjoint in every room. No other input is restricted.
\<close>

theorem sets_disjoint:
  assumes "reachable_under rejoin_policy st"
  shows "disjoint_state st"
  using assms
proof (induction rule: reachable_under.induct)
  case start
  show ?case by (simp add: disjoint_state_def init_state_def)
next
  case (step st now e st' out)
  then show ?case
    using disjoint_rooms_step [of now e st st' out] by (simp add: disjoint_state_def)
qed

text \<open>
  The claim as stated fails: a connection in the waiting room that sends
  \<^verbatim>\<open>join-room\<close> again with the host flag is added to \<^verbatim>\<open>participants\<close> and stays
  in \<^verbatim>\<open>waitingParticipants\<close>.
\<close>

theorem sets_disjoint_counterexample:
  "reachable (the (run ex_rejoin init_state)) \<and>
   \<not> disjoint_state (the (run ex_rejoin init_state))"
proof -
  have "run ex_rejoin init_state \<noteq> None"
    by (simp add: ex_rejoin_def ex_waiting_def eval_defs)
  then have "reachable (the (run ex_rejoin init_state))"
    by (auto intro: run_reachable)
  moreover have "\<not> disjoint_state (the (run ex_rejoin init_state))"
    by (simp add: ex_rejoin_def ex_waiting_def eval_defs disjoint_state_def disjoint_sets_def)
  ultimately show ?thesis by simp
qed

theorem sets_disjoint_witness:
  "reachable_under rejoin_policy (the (run_under rejoin_policy ex_meeting init_state)) \<and>
   disjoint_state (the (run_under rejoin_policy ex_meeting init_state))"
proof -
  have "run_under rejoin_policy ex_meeting init_state \<noteq> None"
    by (simp add: ex_meeting_def ex_waiting_def eval_defs)
  then have r: "reachable_under rejoin_policy (the (run_under rejoin_policy ex_meeting init_state))"
    by (auto intro: run_under_reachable [OF reachable_under.start])
  from r sets_disjoint [OF r] show ?thesis by simp
qed

section \<open>Host uniqueness\<close>

lemma host_slot_step:
  assumes step: "handle now e st = Inr (st', out)"
    and pol: "host_policy e st"
    and inv: "\<forall>x \<in> set (rooms st). host_slot_ok (snd x)"
  shows "\<forall>x \<in> set (rooms st'). host_slot_ok (snd x)"
  using step inv
proof (rule room_inv_step)
  fix r show "host_slot_ok (new_room now r)"
    by (simp add: host_slot_ok_def new_room_def)
next
  fix sid roomId uname pid flag and room :: room
  assume e: "e = Join_room sid roomId uname pid flag"
    and get: "obj_get (rooms st) roomId = Some room"
    and ok: "host_slot_ok room" and host: "flag \<or> hostId room = None"
  from pol e get host have "hostId room = None \<or> hostId room = Some sid" by auto
  with ok show "host_slot_ok (room\<lparr>hostId := Some sid, hostPeerId := Some pid,
      participants := obj_set sid (host_record now sid uname pid) (participants room)\<rparr>)"
    by (auto simp: host_slot_ok_def obj_get_set dest!: in_obj_setD)
next
  fix sid roomId uname pid flag and room :: room
  assume "host_slot_ok room"
  then show "host_slot_ok (room\<lparr>waitingParticipants :=
      obj_set sid (waiting_record now sid uname pid) (waitingParticipants room)\<rparr>)"
    by (auto simp: host_slot_ok_def split: option.splits)
next
  fix sid roomId participantId w and room :: room
  assume e: "e = Approve_participant sid roomId participantId"
    and ok: "host_slot_ok room" and host: "hostId room = Some sid"
  from pol e have "participantId \<noteq> sid" by simp
  with ok host show "host_slot_ok (room\<lparr>participants :=
        obj_set participantId (approved_record w) (participants room),
      waitingParticipants := obj_delete participantId (waitingParticipants room)\<rparr>)"
    by (auto simp: host_slot_ok_def obj_get_set dest!: in_obj_setD split: option.splits)
next
  fix participantId and room :: room
  assume "host_slot_ok room"
  then show "host_slot_ok (room\<lparr>waitingParticipants :=
      obj_delete participantId (waitingParticipants room)\<rparr>)"
    by (auto simp: host_slot_ok_def split: option.splits)
next
  fix sid and p p' :: participant and room :: room
  assume ok: "host_slot_ok room" and get: "obj_get (participants room) sid = Some p"
    and same: "isHost p' = isHost p"
  from get have "(sid, p) \<in> set (participants room)" by (rule obj_get_SomeD)
  with ok same get
  show "host_slot_ok (room\<lparr>participants := obj_set sid p' (participants room)\<rparr>)"
    by (auto simp: host_slot_ok_def obj_get_set dest!: in_obj_setD split: option.splits)
next
  fix sid roomId participantId pid and room :: room
  assume e: "e = Remove_participant sid roomId participantId pid"
    and ok: "host_slot_ok room" and host: "hostId room = Some sid"
  from pol e have "participantId \<noteq> sid" by simp
  with ok host
  show "host_slot_ok (room\<lparr>participants := obj_delete participantId (participants room)\<rparr>)"
    by (auto simp: host_slot_ok_def obj_get_delete dest!: in_obj_deleteD split: option.splits)
next
  fix sid and room :: room
  assume ok: "host_slot_ok room"
  then show "host_slot_ok (room\<lparr>hostId := (if obj_get (participants room) sid \<noteq> None \<and>
                                 hostId room = Some sid then None else hostId room),
                  hostPeerId := (if obj_get (participants room) sid \<noteq> None \<and>
                                     hostId room = Some sid then None else hostPeerId room),
                  participants := obj_delete sid (participants room),
                  waitingParticipants := obj_delete sid (waitingParticipants room)\<rparr>)"
    by (auto simp: host_slot_ok_def obj_get_delete dest!: in_obj_deleteD split: option.splits)
qed

lemma reachable_host_slot:
  assumes "reachable_under host_policy st"
  shows "\<forall>x \<in> set (rooms st). host_slot_ok (snd x)"
  using assms
proof (induction rule: reachable_under.induct)
  case start
  show ?case by (simp add: init_state_def)
next
  case (step st now e st' out)
  then show ?case using host_slot_step [of now e st st' out] by simp
qed

lemma at_most_one_flagged:
  assumes "distinct (map fst ps)" and "\<forall>e \<in> set ps. F (snd e) \<longrightarrow> fst e = h"
  shows "length (filter (\<lambda>e. F (snd e)) ps) \<le> 1"
  using assms
proof (induction ps)
  case Nil
  then show ?case by simp
next
  case (Cons e ps)
  show ?case
  proof (cases "F (snd e)")
    case True
    with Cons.prems have "fst e = h" "h \<notin> fst ` set ps" by auto
    have "\<forall>x \<in> set ps. \<not> F (snd x)"
    proof (intro ballI notI)
      fix x assume x: "x \<in> set ps" "F (snd x)"
      with Cons.prems(2) have "fst x = h" by simp
      with x(1) \<open>h \<notin> fst ` set ps\<close> show False by force
    qed
    then have "filter (\<lambda>e. F (snd e)) ps = []" by (simp add: filter_empty_conv)
    with True show ?thesis by simp
  next
    case False
    with Cons show ?thesis by simp
  qed
qed

lemma host_unique_from_slot:
  assumes wf: "wf_room room" and ok: "host_slot_ok room"
  shows "host_unique room"
proof -
  have one: "length (filter (\<lambda>e. isHost (snd e)) (participants room)) \<le> 1"
  proof (cases "hostId room")
    case None
    with ok have "\<forall>e \<in> set (participants room). \<not> isHost (snd e)"
      by (simp add: host_slot_ok_def)
    then have "filter (\<lambda>e. isHost (snd e)) (participants room) = []"
      by (simp add: filter_empty_conv)
    then show ?thesis by simp
  next
    case (Some h)
    with ok have "\<forall>e \<in> set (participants room). isHost (snd e) \<longrightarrow> fst e = h"
      by (simp add: host_slot_ok_def)
    with wf show ?thesis
      by (intro at_most_one_flagged [where h = h]) (simp_all add: wf_room_def obj_keys_def)
  qed
  with wf ok show ?thesis
    by (simp add: host_unique_def host_slot_ok_def wf_room_def)
qed

text \<open>
  C1 (as amended). In every state reached by inputs in which no \<^verbatim>\<open>join-room\<close>
  request carries the host flag while a different connection holds \<open>hostId\<close> of the
  room, and no host names itself in \<^verbatim>\<open>approve-participant\<close> or
  \<^verbatim>\<open>remove-participant\<close>, every room has at most one participant record with
  \<open>isHost\<close>, such a record is stored under \<open>hostId\<close> and carries that id, and an
  occupied \<open>hostId\<close> names a joined participant whose record has \<open>isHost\<close>.
\<close>

theorem host_uniqueness:
  assumes "reachable_under host_policy st"
  shows "host_unique_state st"
  unfolding host_unique_state_def
proof
  fix x assume x: "x \<in> set (rooms st)"
  from assms have "wf_state st" by (rule reachable_under_wf)
  with x have "wf_room (snd x)" by (simp add: wf_state_def)
  moreover from reachable_host_slot [OF assms] x have "host_slot_ok (snd x)" by blast
  ultimately show "host_unique (snd x)" by (rule host_unique_from_slot)
qed

text \<open>
  The claim as stated fails: a second connection that joins with the host flag becomes
  \<open>hostId\<close>, and the record of the earlier host keeps \<open>isHost\<close>.
\<close>

theorem host_uniqueness_counterexample:
  "reachable (the (run ex_takeover init_state)) \<and>
   \<not> host_unique_state (the (run ex_takeover init_state))"
proof -
  have "run ex_takeover init_state \<noteq> None"
    by (simp add: ex_takeover_def eval_defs)
  then have "reachable (the (run ex_takeover init_state))"
    by (auto intro: run_reachable)
  moreover have "\<not> host_unique_state (the (run ex_takeover init_state))"
    by (simp add: ex_takeover_def eval_defs host_unique_state_def host_unique_def)
  ultimately show ?thesis by simp
qed

theorem host_uniqueness_witness:
  "reachable_under host_policy (the (run_under host_policy ex_meeting init_state)) \<and>
   host_unique_state (the (run_under host_policy ex_meeting init_state))"
proof -
  have "run_under host_policy ex_meeting init_state \<noteq> None"
    by (simp add: ex_meeting_def ex_waiting_def eval_defs)
  then have r: "reachable_under host_policy (the (run_under host_policy ex_meeting init_state))"
    by (auto intro: run_under_reachable [OF reachable_under.start])
  from r host_uniqueness [OF r] show ?thesis by simp
qed

section \<open>One room per connection\<close>


lemma set_room_keys:
  "set (room_keys room) =
     set (obj_keys (participants room)) \<union> set (obj_keys (waitingParticipants room))"
  by (simp add: room_keys_def)

lemma single_room_update:
  assumes inv: "single_room st"
    and get: "obj_get (rooms st) k = Some r"
    and st': "rooms st' = obj_set k r' (rooms st)"
    and fresh: "\<forall>x \<in> set (rooms st). fst x \<noteq> k \<longrightarrow> A \<inter> set (room_keys (snd x)) = {}"
    and keys: "set (room_keys r') \<subseteq> set (room_keys r) \<union> A"
  shows "single_room st'"
  unfolding single_room_def
proof (intro ballI impI)
  fix e1 e2
  assume e1: "e1 \<in> set (rooms st')" and e2: "e2 \<in> set (rooms st')" and ne: "fst e1 \<noteq> fst e2"
  from get have old: "(k, r) \<in> set (rooms st)" by (rule obj_get_SomeD)
  have new: "\<And>x. x \<in> set (rooms st) \<Longrightarrow> fst x \<noteq> k \<Longrightarrow>
               set (room_keys r') \<inter> set (room_keys (snd x)) = {}"
  proof -
    fix x assume x: "x \<in> set (rooms st)" "fst x \<noteq> k"
    with inv old have "set (room_keys r) \<inter> set (room_keys (snd x)) = {}"
      unfolding single_room_def by fastforce
    moreover from fresh x have "A \<inter> set (room_keys (snd x)) = {}" by blast
    ultimately show "set (room_keys r') \<inter> set (room_keys (snd x)) = {}"
      using keys by blast
  qed
  from e1 e2 st' have c: "e1 = (k, r') \<or> e1 \<in> set (rooms st)" "e2 = (k, r') \<or> e2 \<in> set (rooms st)"
    by (auto dest: in_obj_setD)
  show "set (room_keys (snd e1)) \<inter> set (room_keys (snd e2)) = {}"
  proof (cases "e1 = (k, r')")
    case True
    with ne c(2) have "e2 \<in> set (rooms st)" "fst e2 \<noteq> k" by auto
    with new [of e2] True show ?thesis by simp
  next
    case False
    with c(1) have in1: "e1 \<in> set (rooms st)" by simp
    show ?thesis
    proof (cases "e2 = (k, r')")
      case True
      with ne in1 have "fst e1 \<noteq> k" by auto
      with new [of e1] in1 True show ?thesis by auto
    next
      case False
      with c(2) have "e2 \<in> set (rooms st)" by simp
      with inv in1 ne show ?thesis unfolding single_room_def by blast
    qed
  qed
qed

lemma single_room_shrink:
  assumes inv: "single_room st"
    and get: "obj_get (rooms st) k = Some r"
    and st': "rooms st' = obj_set k r' (rooms st)"
    and keys: "set (room_keys r') \<subseteq> set (room_keys r)"
  shows "single_room st'"
  using single_room_update [OF inv get st', of "{}"] keys by simp

lemma single_room_disconnect:
  assumes inv: "single_room st"
  shows "single_room (fst (disconnect now sid st))"
  unfolding single_room_def
proof (intro ballI impI)
  fix e1 e2
  assume e: "e1 \<in> set (rooms (fst (disconnect now sid st)))"
    "e2 \<in> set (rooms (fst (disconnect now sid st)))" and ne: "fst e1 \<noteq> fst e2"
  let ?f = "\<lambda>y. (fst y, fst (disconnect_room (socket_closed sid st) sid (fst y) (snd y)))"
  from e obtain y1 y2 where y: "y1 \<in> set (rooms st)" "y2 \<in> set (rooms st)"
    "e1 = ?f y1" "e2 = ?f y2"
    by (auto simp: rooms_disconnect)
  have sub: "\<And>y. set (room_keys (snd (?f y))) \<subseteq> set (room_keys (snd y))"
    by (auto simp: disconnect_room_fst set_room_keys obj_keys_delete)
  from inv y ne have "set (room_keys (snd y1)) \<inter> set (room_keys (snd y2)) = {}"
    unfolding single_room_def by auto
  with sub [of y1] sub [of y2] y
  show "set (room_keys (snd e1)) \<inter> set (room_keys (snd e2)) = {}"
    by blast
qed

lemma single_room_step:
  assumes step: "handle now e st = Inr (st', out)"
    and pol: "one_room_policy e st"
    and inv: "single_room st"
  shows "single_room st'"
  using step
proof (cases rule: handle_cases)
  case (Create roomId)
  show ?thesis unfolding single_room_def
  proof (intro ballI impI)
    fix e1 e2
    assume "e1 \<in> set (rooms st')" "e2 \<in> set (rooms st')" "fst e1 \<noteq> fst e2"
    with Create have c: "e1 = (roomId, new_room now roomId) \<or> e1 \<in> set (rooms st)"
        "e2 = (roomId, new_room now roomId) \<or> e2 \<in> set (rooms st)"
      by (auto simp: create_room_def dest: in_obj_setD)
    have "set (room_keys (new_room now roomId)) = {}"
      by (simp add: room_keys_def new_room_def obj_keys_def)
    with c inv \<open>fst e1 \<noteq> fst e2\<close>
    show "set (room_keys (snd e1)) \<inter> set (room_keys (snd e2)) = {}"
      unfolding single_room_def by auto
  qed
next
  case (Connect sid)
  with inv show ?thesis by (simp add: single_room_def socket_connected_def)
next
  case Idle
  with inv show ?thesis by (simp add: single_room_def)
next
  case (Join_host sid roomId uname pid flag room)
  from pol Join_host(1)
  have fresh: "\<forall>x \<in> set (rooms st). fst x \<noteq> roomId \<longrightarrow> {sid} \<inter> set (room_keys (snd x)) = {}"
    by simp
  from Join_host(4) have eq: "rooms st' = obj_set roomId
      (room\<lparr>hostId := Some sid, hostPeerId := Some pid,
            participants := obj_set sid (host_record now sid uname pid) (participants room)\<rparr>)
      (rooms st)" by simp
  show ?thesis
    by (rule single_room_update [OF inv Join_host(2) eq fresh])
       (auto simp: set_room_keys obj_keys_set)
next
  case (Join_wait sid roomId uname pid flag room)
  from pol Join_wait(1)
  have fresh: "\<forall>x \<in> set (rooms st). fst x \<noteq> roomId \<longrightarrow> {sid} \<inter> set (room_keys (snd x)) = {}"
    by simp
  from Join_wait(5) have eq: "rooms st' = obj_set roomId
      (room\<lparr>waitingParticipants :=
              obj_set sid (waiting_record now sid uname pid) (waitingParticipants room)\<rparr>)
      (rooms st)" by simp
  show ?thesis
    by (rule single_room_update [OF inv Join_wait(2) eq fresh])
       (auto simp: set_room_keys obj_keys_set)
next
  case (Approve sid roomId participantId room w)
  from Approve(4) have key: "participantId \<in> set (obj_keys (waitingParticipants room))"
    by (rule obj_get_Some_key)
  from Approve(5) have eq: "rooms st' = obj_set roomId
      (room\<lparr>participants := obj_set participantId (approved_record w) (participants room),
            waitingParticipants := obj_delete participantId (waitingParticipants room)\<rparr>)
      (rooms st)" by simp
  show ?thesis
    by (rule single_room_shrink [OF inv Approve(2) eq])
       (use key in \<open>auto simp: set_room_keys obj_keys_set obj_keys_delete\<close>)
next
  case (Reject sid roomId participantId room w st1)
  from Reject(5) have eq: "rooms st1 = obj_set roomId
      (room\<lparr>waitingParticipants := obj_delete participantId (waitingParticipants room)\<rparr>)
      (rooms st)" by simp
  have "single_room st1"
    by (rule single_room_shrink [OF inv Reject(2) eq])
       (auto simp: set_room_keys obj_keys_delete)
  then show ?thesis by (simp add: Reject(6) single_room_disconnect)
next
  case (Toggle sid roomId room p p')
  from Toggle(2) have key: "sid \<in> set (obj_keys (participants room))"
    by (rule obj_get_Some_key)
  from Toggle(5) have eq: "rooms st' = obj_set roomId
      (room\<lparr>participants := obj_set sid p' (participants room)\<rparr>) (rooms st)" by simp
  show ?thesis
    by (rule single_room_shrink [OF inv Toggle(1) eq])
       (use key in \<open>auto simp: set_room_keys obj_keys_set\<close>)
next
  case (Remove sid roomId participantId pid room p st1)
  from Remove(5) have eq: "rooms st1 = obj_set roomId
      (room\<lparr>participants := obj_delete participantId (participants room)\<rparr>) (rooms st)"
    by simp
  have "single_room st1"
    by (rule single_room_shrink [OF inv Remove(2) eq])
       (auto simp: set_room_keys obj_keys_delete)
  then show ?thesis by (simp add: Remove(6) single_room_disconnect)
next
  case (Disconnect sid)
  with inv show ?thesis by (simp add: single_room_disconnect)
next
  case (Cleanup due roomId room)
  with inv set_obj_delete_subset [of roomId "rooms st"] show ?thesis
    unfolding single_room_def by auto
qed

text \<open>
  C5 (as amended). In every state reached by inputs in which a connection sends
  \<^verbatim>\<open>join-room\<close> only when it is neither joined nor waiting in any other room, no
  connection id is a key of \<^verbatim>\<open>participants\<close> or \<^verbatim>\<open>waitingParticipants\<close> in two
  rooms of the registry.
\<close>

theorem one_room_per_connection:
  assumes "reachable_under one_room_policy st"
  shows "single_room st"
  using assms
proof (induction rule: reachable_under.induct)
  case start
  show ?case by (simp add: single_room_def init_state_def)
next
  case (step st now e st' out)
  then show ?case using single_room_step [of now e st st' out] by simp
qed

text \<open>
  The claim as stated fails: the handler of \<^verbatim>\<open>join-room\<close> never looks at other
  rooms, so a connection that joins a second room is a key in both.
\<close>

theorem one_room_per_connection_counterexample:
  "reachable (the (run ex_two_rooms init_state)) \<and>
   \<not> single_room (the (run ex_two_rooms init_state))"
proof -
  have "run ex_two_rooms init_state \<noteq> None"
    by (simp add: ex_two_rooms_def eval_defs)
  then have "reachable (the (run ex_two_rooms init_state))"
    by (auto intro: run_reachable)
  moreover have "\<not> single_room (the (run ex_two_rooms init_state))"
    by (simp add: ex_two_rooms_def eval_defs single_room_def room_keys_def)
  ultimately show ?thesis by simp
qed

theorem one_room_per_connection_witness:
  "reachable_under one_room_policy (the (run_under one_room_policy ex_two_meetings init_state)) \<and>
   single_room (the (run_under one_room_policy ex_two_meetings init_state))"
proof -
  have "run_under one_room_policy ex_two_meetings init_state \<noteq> None"
    by (simp add: ex_two_meetings_def eval_defs room_keys_def)
  then have r: "reachable_under one_room_policy
                  (the (run_under one_room_policy ex_two_meetings init_state))"
    by (auto intro: run_under_reachable [OF reachable_under.start])
  from r one_room_per_connection [OF r] show ?thesis by simp
qed

section \<open>The clean-up timer\<close>

lemma timers_disconnect:
  "timers (fst (disconnect now sid st)) =
     timers st @ map (\<lambda>e. (now + grace_period, fst e))
                   (filter (\<lambda>e. is_empty_room (snd e)) (rooms (fst (disconnect now sid st))))"
  by (simp add: disconnect_def Let_def socket_closed_def case_prod_unfold comp_def filter_map)


lemma timers_approve [simp]:
  "timers (fst (approve_participant sid roomId participantId st)) = timers st"
  by (simp add: approve_participant_def Let_def split: option.splits)




lemma timers_get_waiting [simp]:
  "timers (fst (get_waiting_participants sid roomId st)) = timers st"
  by (simp add: get_waiting_participants_def split: option.splits)



lemma timers_cleanup_check [simp]: "timers (cleanup_check r st) = timers st"
  by (simp add: cleanup_check_def split: option.splits)





section \<open>Rooms that nobody joins\<close>

lemma obj_get_map_entries:
  "obj_get (map (\<lambda>e. (fst e, g e)) rs) k = map_option (\<lambda>v. g (k, v)) (obj_get rs k)"
  by (induction rs) (auto simp: obj_get_def)

lemma disconnect_room_empty:
  "is_empty_room room \<Longrightarrow> fst (disconnect_room st sid r room) = room"
  by (simp add: disconnect_room_def is_empty_room_def obj_keys_def obj_get_def)

lemma empty_room_lookups:
  assumes "is_empty_room room"
  shows "obj_get (participants room) k = None" "obj_get (waitingParticipants room) k = None"
  using assms by (simp_all add: is_empty_room_def obj_keys_def obj_get_def)

lemma left_alone_disconnect:
  assumes "obj_get (rooms st) r = Some room" and "is_empty_room room"
  shows "obj_get (rooms (fst (disconnect now sid st))) r = Some room"
  using assms by (simp add: rooms_disconnect obj_get_map_entries disconnect_room_empty)

lemma left_alone_step:
  assumes step: "handle now e st = Inr (st', out)"
    and poss: "possible now e st"
    and alone: "leaves_alone r e"
    and room: "obj_get (rooms st) r = Some room"
    and empty: "is_empty_room room"
  shows "obj_get (rooms st') r = Some room"
  using step
proof (cases rule: handle_cases)
  case (Create roomId)
  from room have "r \<in> set (obj_keys (rooms st))" by (rule obj_get_Some_key)
  with poss Create(1) have "roomId \<noteq> r" by auto
  with room Create(2) show ?thesis by (simp add: create_room_def obj_get_set)
next
  case (Connect sid)
  with room show ?thesis by (simp add: socket_connected_def)
next
  case Idle
  with room show ?thesis by simp
next
  case (Join_host sid roomId uname pid flag room0)
  with alone have "roomId \<noteq> r" by simp
  with room Join_host(4) show ?thesis by (simp add: obj_get_set)
next
  case (Join_wait sid roomId uname pid flag room0)
  with alone have "roomId \<noteq> r" by simp
  with room Join_wait(5) show ?thesis by (simp add: obj_get_set)
next
  case (Approve sid roomId participantId room0 w)
  with room empty_room_lookups(2) [OF empty, of participantId] have "roomId \<noteq> r" by auto
  with room Approve(5) show ?thesis by (simp add: obj_get_set)
next
  case (Reject sid roomId participantId room0 w st1)
  with room empty_room_lookups(2) [OF empty, of participantId] have "roomId \<noteq> r" by auto
  with room Reject(5) have "obj_get (rooms st1) r = Some room" by (simp add: obj_get_set)
  with empty show ?thesis by (simp add: Reject(6) left_alone_disconnect)
next
  case (Toggle sid roomId room0 p p')
  with room empty_room_lookups(1) [OF empty, of sid] have "roomId \<noteq> r" by auto
  with room Toggle(5) show ?thesis by (simp add: obj_get_set)
next
  case (Remove sid roomId participantId pid room0 p st1)
  with room empty_room_lookups(1) [OF empty, of participantId] have "roomId \<noteq> r" by auto
  with room Remove(5) have "obj_get (rooms st1) r = Some room" by (simp add: obj_get_set)
  with empty show ?thesis by (simp add: Remove(6) left_alone_disconnect)
next
  case (Disconnect sid)
  with room empty show ?thesis by (simp add: left_alone_disconnect)
next
  case (Cleanup due roomId room0)
  with alone have "roomId \<noteq> r" by simp
  with room Cleanup(4) show ?thesis by (simp add: obj_get_delete)
qed

lemma left_alone_run:
  assumes "obj_get (rooms st) r = Some room" and "is_empty_room room"
    and "run_under P es st = Some st'" and "\<forall>x \<in> set es. leaves_alone r (snd x)"
  shows "obj_get (rooms st') r = Some room"
  using assms
proof (induction es arbitrary: st)
  case Nil
  then show ?case by simp
next
  case (Cons x es)
  obtain now e where x: "x = (now, e)" by (cases x)
  with Cons.prems(3) obtain st1 out where h: "handle now e st = Inr (st1, out)"
    and poss: "possible now e st" and rest: "run_under P es st1 = Some st'"
    by (auto split: if_splits sum.splits)
  from Cons.prems(4) x have alone: "leaves_alone r e" by simp
  from left_alone_step [OF h poss alone Cons.prems(1,2)]
  have room1: "obj_get (rooms st1) r = Some room" .
  from Cons.prems(4) have rest_alone: "\<forall>x \<in> set es. leaves_alone r (snd x)" by simp
  from Cons.IH [OF room1 Cons.prems(2) rest rest_alone] show ?case .
qed

text \<open>
  C6 (as amended). A room with both sets empty stays in the registry, unchanged, through
  every sequence of inputs that contains no \<^verbatim>\<open>join-room\<close> for it and no expiry of a
  clean-up timer for it. It is not exempt from clean-up: after any such sequence the
  disconnect of any connection schedules a check for it 60000 ms later, and that check
  deletes it if it is still empty.
\<close>

theorem never_joined_room:
  assumes "obj_get (rooms st) r = Some room" and "is_empty_room room"
    and "run es st = Some st'" and "\<forall>x \<in> set es. leaves_alone r (snd x)"
  shows "obj_get (rooms st') r = Some room \<and>
         (now + 60000, r) \<in> set (timers (fst (disconnect now sid st'))) \<and>
         obj_get (rooms (cleanup_check r (fst (disconnect now sid st')))) r = None"
proof -
  from assms have kept: "obj_get (rooms st') r = Some room"
    unfolding run_def by (rule left_alone_run)
  let ?st1 = "fst (disconnect now sid st')"
  from kept assms(2) have after: "obj_get (rooms ?st1) r = Some room"
    by (simp add: rooms_disconnect obj_get_map_entries disconnect_room_empty)
  then have "(r, room) \<in> set (filter (\<lambda>e. is_empty_room (snd e)) (rooms ?st1))"
    using assms(2) by (simp add: obj_get_SomeD)
  then have "(now + grace_period, fst (r, room))
      \<in> (\<lambda>e. (now + grace_period, fst e)) ` set (filter (\<lambda>e. is_empty_room (snd e)) (rooms ?st1))"
    by (rule imageI)
  then have "(now + 60000, r) \<in> set (timers ?st1)"
    using timers_disconnect [of now sid st'] by (simp add: grace_period_def)
  moreover from after assms(2) have "obj_get (rooms (cleanup_check r ?st1)) r = None"
    by (simp add: cleanup_check_def obj_get_delete)
  ultimately show ?thesis using kept by simp
qed

text \<open>
  The claim as stated fails: a room is created, nobody ever joins it, some connection
  disconnects, and the timer that this disconnect set deletes the room.
\<close>

theorem never_joined_room_counterexample:
  "list_all (\<lambda>x. \<not> joins ''r1'' (snd x)) ex_abandoned \<and>
   obj_get (rooms (the (run (take 1 ex_abandoned) init_state))) ''r1'' \<noteq> None \<and>
   reachable (the (run ex_abandoned init_state)) \<and>
   obj_get (rooms (the (run ex_abandoned init_state))) ''r1'' = None"
proof -
  have "run ex_abandoned init_state \<noteq> None"
    by (simp add: ex_abandoned_def eval_defs)
  then have "reachable (the (run ex_abandoned init_state))"
    by (auto intro: run_reachable)
  moreover have "list_all (\<lambda>x. \<not> joins ''r1'' (snd x)) ex_abandoned"
    by (simp add: ex_abandoned_def)
  moreover have "obj_get (rooms (the (run (take 1 ex_abandoned) init_state))) ''r1'' \<noteq> None"
    by (simp add: ex_abandoned_def eval_defs)
  moreover have "obj_get (rooms (the (run ex_abandoned init_state))) ''r1'' = None"
    by (simp add: ex_abandoned_def eval_defs)
  ultimately show ?thesis by simp
qed

theorem never_joined_room_witness:
  "obj_get (rooms (create_room 0 ''r1'' init_state)) ''r1'' = Some (new_room 0 ''r1'') \<and>
   is_empty_room (new_room 0 ''r1'') \<and>
   run ex_elsewhere (create_room 0 ''r1'' init_state) \<noteq> None \<and>
   list_all (\<lambda>x. leaves_alone ''r1'' (snd x)) ex_elsewhere \<and>
   obj_get (rooms (the (run ex_elsewhere (create_room 0 ''r1'' init_state)))) ''r1''
     = Some (new_room 0 ''r1'')"
proof -
  let ?st = "create_room 0 ''r1'' init_state"
  have h1: "obj_get (rooms ?st) ''r1'' = Some (new_room 0 ''r1'')"
    by (simp add: eval_defs)
  have h2: "is_empty_room (new_room 0 ''r1'')"
    by (simp add: eval_defs)
  have ne: "run ex_elsewhere ?st \<noteq> None"
    by (simp add: ex_elsewhere_def eval_defs)
  then have h3: "run ex_elsewhere ?st = Some (the (run ex_elsewhere ?st))" by simp
  have h4: "\<forall>x \<in> set ex_elsewhere. leaves_alone ''r1'' (snd x)"
    by (simp add: ex_elsewhere_def)
  from never_joined_room [OF h1 h2 h3 h4, of 6 "''c''"] h1 h2 ne h4
  show ?thesis by (simp add: list_all_iff)
qed

section \<open>Approval\<close>

lemma approve_effects:
  assumes "obj_get (rooms st) roomId = Some room" and "hostId room = Some sid"
    and "obj_get (waitingParticipants room) participantId = Some w"
    and "participantId \<in> set (sockets st)"
  shows "snd (approve_participant sid roomId participantId st) =
           [Emit [participantId] Approval_granted,
            Emit [participantId]
              (Room_participants
                 (others participantId
                    (obj_set participantId (approved_record w) (participants room)))),
            Emit (filter (\<lambda>x. x \<noteq> sid)
                    (members (socket_join participantId roomId st) roomId))
              (User_joined participantId (username w) (peerId w))]"
proof -
  from assms(1,2) have "is_host_of st sid roomId = Some room" by (simp add: is_host_of_Some)
  with assms(3,4) show ?thesis
    by (simp add: approve_participant_def Let_def others_def socket_to_def members_def
        socket_join_def)
qed

lemma approve_host_not_notified:
  assumes "obj_get (rooms st) roomId = Some room" and "hostId room = Some sid"
    and "obj_get (waitingParticipants room) participantId = Some w"
    and "participantId \<in> set (sockets st)" and "participantId \<noteq> sid"
  shows "received sid (snd (approve_participant sid roomId participantId st)) = []"
  using approve_effects [OF assms(1-4)] assms(5) by (simp add: received_def)

text \<open>
  C3. The approved candidate should get the roster without itself, and every other
  member, the host included and the candidate excluded, one \<^verbatim>\<open>user-joined\<close>. The
  handler sends \<^verbatim>\<open>user-joined\<close> with \<^verbatim>\<open>socket.to(roomId)\<close> on the socket of the
  caller, who is the host, after the candidate has joined the socket.io room. With host
  \<open>a\<close>, member \<open>c\<close> and candidate \<open>b\<close>: the roster that \<open>b\<close> gets is right, \<open>c\<close> gets one
  \<^verbatim>\<open>user-joined\<close>, the host \<open>a\<close> gets nothing, and \<open>b\<close> gets the
  \<^verbatim>\<open>user-joined\<close> about itself.
\<close>

theorem approve_notifications:
  "hostId (the (obj_get (rooms (the (run ex_three init_state))) ''r1'')) = Some ''a'' \<and>
   obj_keys (participants (the (obj_get (rooms (the (run ex_three init_state))) ''r1'')))
     = [''a'', ''c''] \<and>
   obj_keys (waitingParticipants (the (obj_get (rooms (the (run ex_three init_state))) ''r1'')))
     = [''b''] \<and>
   ''b'' \<in> set (sockets (the (run ex_three init_state))) \<and>
   received ''a'' (snd (approve_participant ''a'' ''r1'' ''b'' (the (run ex_three init_state))))
     = [] \<and>
   received ''b'' (snd (approve_participant ''a'' ''r1'' ''b'' (the (run ex_three init_state))))
     = [Approval_granted,
        Room_participants
          [(''a'', host_record 4 ''a'' ''alice'' ''pa''),
           (''c'', approved_record (waiting_record 5 ''c'' ''carol'' ''pc''))],
        User_joined ''b'' ''bob'' ''pb''] \<and>
   received ''c'' (snd (approve_participant ''a'' ''r1'' ''b'' (the (run ex_three init_state))))
     = [User_joined ''b'' ''bob'' ''pb'']"
  by (simp add: ex_three_def eval_defs)

section \<open>Admission as host\<close>

text \<open>
  C4 (as amended). A \<^verbatim>\<open>join-room\<close> request to an existing room with the host flag
  set or with \<open>hostId\<close> vacant is admitted as host: \<open>hostId\<close> and \<open>hostPeerId\<close> name
  the caller, its record is stored under its id with \<open>isHost\<close>, and the records of all
  other joined participants are kept. When no other connection was joined before the
  request, the joined set is empty apart from the new host record and the roster sent
  after \<^verbatim>\<open>host-status\<close> is the (empty) participant list without the caller.
\<close>

theorem join_as_host:
  assumes "obj_get (rooms st) roomId = Some room" and "isHostFlag \<or> hostId room = None"
  shows "\<exists>st' out room'.
           join_room now sid roomId uname pid isHostFlag st = Inr (st', out) \<and>
           obj_get (rooms st') roomId = Some room' \<and>
           hostId room' = Some sid \<and> hostPeerId room' = Some pid \<and>
           obj_get (participants room') sid = Some (host_record now sid uname pid) \<and>
           others sid (participants room') = others sid (participants room) \<and>
           (others sid (participants room) = [] \<longrightarrow>
              others sid (participants room') = [] \<and>
              out = [Emit [sid] (Host_status True),
                     Emit [sid] (Room_participants (others sid (participants room')))])"
proof -
  have keep: "\<And>v ob. others sid (obj_set sid v ob) = others sid ob"
  proof -
    fix v and ob :: "participant obj"
    show "others sid (obj_set sid v ob) = others sid ob"
      by (induction ob) (auto simp: others_def)
  qed
  from assms(1) have "prop_get (rooms st) roomId = Own room" by (simp add: prop_get_def)
  with assms(2) show ?thesis
    by (auto simp: join_room_def Let_def obj_get_set keep)
qed

text \<open>
  The claim as stated fails: a connection that joins with the host flag a room that
  already has a host is admitted as host next to the participants already there, and the
  roster it is sent is empty although another participant is joined.
\<close>

theorem join_as_host_counterexample:
  "reachable (the (run ex_hosted init_state)) \<and>
   hostId (the (obj_get (rooms (fst (projr
      (join_room 4 ''b'' ''r1'' ''bob'' ''pb'' True (the (run ex_hosted init_state))))))
      ''r1'')) = Some ''b'' \<and>
   snd (projr (join_room 4 ''b'' ''r1'' ''bob'' ''pb'' True (the (run ex_hosted init_state))))
     = [Emit [''b''] (Host_status True), Emit [''b''] (Room_participants [])] \<and>
   others ''b'' (participants (the (obj_get (rooms (fst (projr
      (join_room 4 ''b'' ''r1'' ''bob'' ''pb'' True (the (run ex_hosted init_state))))))
      ''r1'')))
     = [(''a'', host_record 3 ''a'' ''alice'' ''pa'')]"
proof -
  have "run ex_hosted init_state \<noteq> None"
    by (simp add: ex_hosted_def eval_defs)
  then have "reachable (the (run ex_hosted init_state))"
    by (auto intro: run_reachable)
  then show ?thesis
    by (simp add: ex_hosted_def eval_defs others_def)
qed

theorem join_as_host_witness:
  "obj_get (rooms (create_room 0 ''r1'' init_state)) ''r1'' = Some (new_room 0 ''r1'') \<and>
   hostId (new_room 0 ''r1'') = None \<and>
   others ''a'' (participants (new_room 0 ''r1'')) = [] \<and>
   join_room 1 ''a'' ''r1'' ''alice'' ''pa'' False (create_room 0 ''r1'' init_state)
     = Inr (fst (projr (join_room 1 ''a'' ''r1'' ''alice'' ''pa'' False
                          (create_room 0 ''r1'' init_state))),
            [Emit [''a''] (Host_status True), Emit [''a''] (Room_participants [])])"
proof -
  have h1: "obj_get (rooms (create_room 0 ''r1'' init_state)) ''r1'' = Some (new_room 0 ''r1'')"
    by (simp add: eval_defs)
  have h2: "False \<or> hostId (new_room 0 ''r1'') = None"
    by (simp add: new_room_def)
  have h3: "others ''a'' (participants (new_room 0 ''r1'')) = []"
    by (simp add: new_room_def others_def)
  from join_as_host [OF h1 h2, of 1 "''a''" "''alice''" "''pa''"] h1 h2 h3
  show ?thesis by auto
qed

section \<open>Joined participants are in the socket.io room\<close>

lemma members_rooms_update [simp]: "members (st\<lparr>rooms := rs\<rparr>) = members st"
  by (rule ext) (simp add: members_def)

lemma members_timers_update [simp]: "members (st\<lparr>timers := ts\<rparr>) = members st"
  by (rule ext) (simp add: members_def)

lemma members_sockets_update [simp]: "members (st\<lparr>sockets := ss\<rparr>) = members st"
  by (rule ext) (simp add: members_def)




lemma registered_update:
  assumes inv: "registered st"
    and get: "obj_get (rooms st) k = Some r"
    and rooms': "rooms st' = obj_set k r' (rooms st)"
    and mem: "\<And>q. set (members st q) \<subseteq> set (members st' q)"
    and socks: "set (sockets st) \<subseteq> set (sockets st')"
    and p: "set (obj_keys (participants r'))
              \<subseteq> set (obj_keys (participants r)) \<union> set (members st' k)"
    and w: "set (obj_keys (waitingParticipants r'))
              \<subseteq> set (obj_keys (waitingParticipants r)) \<union> set (sockets st')"
  shows "registered st'"
  unfolding registered_def
proof
  fix x assume "x \<in> set (rooms st')"
  with rooms' have c: "x = (k, r') \<or> x \<in> set (rooms st)" by (auto dest: in_obj_setD)
  from get have old: "(k, r) \<in> set (rooms st)" by (rule obj_get_SomeD)
  show "set (obj_keys (participants (snd x))) \<subseteq> set (members st' (fst x)) \<and>
        set (obj_keys (waitingParticipants (snd x))) \<subseteq> set (sockets st')"
  proof (cases "x = (k, r')")
    case True
    from inv old have "set (obj_keys (participants r)) \<subseteq> set (members st k)"
      and "set (obj_keys (waitingParticipants r)) \<subseteq> set (sockets st)"
      unfolding registered_def by force+
    with p w mem [of k] socks True show ?thesis by auto
  next
    case False
    with c have "x \<in> set (rooms st)" by simp
    with inv have "set (obj_keys (participants (snd x))) \<subseteq> set (members st (fst x))"
      and "set (obj_keys (waitingParticipants (snd x))) \<subseteq> set (sockets st)"
      unfolding registered_def by auto
    with mem [of "fst x"] socks show ?thesis by auto
  qed
qed




section \<open>The host disconnects\<close>










text \<open>
  The states in which \<^verbatim>\<open>reject-participant\<close> and \<^verbatim>\<open>remove-participant\<close> close
  a socket are consistent as well.
\<close>

lemma closing_state_consistent:
  assumes "consistent st" and "obj_get (rooms st) roomId = Some room"
  shows "consistent (st\<lparr>rooms := obj_set roomId
            (room\<lparr>waitingParticipants := obj_delete participantId (waitingParticipants room)\<rparr>)
            (rooms st)\<rparr>)"
    and "consistent (st\<lparr>rooms := obj_set roomId
            (room\<lparr>participants := obj_delete participantId (participants room)\<rparr>)
            (rooms st)\<rparr>)"
proof -
  from assms(1) have reg: "registered st" and dist: "distinct (obj_keys (rooms st))"
    by (simp_all add: consistent_def)
  have "registered (st\<lparr>rooms := obj_set roomId
            (room\<lparr>waitingParticipants := obj_delete participantId (waitingParticipants room)\<rparr>)
            (rooms st)\<rparr>)"
    by (rule registered_update [OF reg assms(2)]) (auto simp: obj_keys_delete)
  with dist show "consistent (st\<lparr>rooms := obj_set roomId
            (room\<lparr>waitingParticipants := obj_delete participantId (waitingParticipants room)\<rparr>)
            (rooms st)\<rparr>)"
    by (simp add: consistent_def distinct_obj_set)
  have "registered (st\<lparr>rooms := obj_set roomId
            (room\<lparr>participants := obj_delete participantId (participants room)\<rparr>)
            (rooms st)\<rparr>)"
    by (rule registered_update [OF reg assms(2)]) (auto simp: obj_keys_delete)
  with dist show "consistent (st\<lparr>rooms := obj_set roomId
            (room\<lparr>participants := obj_delete participantId (participants room)\<rparr>)
            (rooms st)\<rparr>)"
    by (simp add: consistent_def distinct_obj_set)
qed




end
